theory Spec2Isabelle
  imports Main "HOL-Library.AList"
begin

section \<open>Python primitives used by \<^verbatim>\<open>main.py\<close>\<close>

text \<open>
  Text is a list of characters. The characters of the model are the Unicode code points
  0 to 255, \<open>Latin1 c\<close> being the one with the number of \<open>c\<close>, and U+03D2, GREEK UPSILON
  WITH HOOK SYMBOL, which is \<open>Upsilon_hook\<close>. U+03D2 is an uppercase letter (general
  category Lu, \<^verbatim>\<open>isupper()\<close> is true of it) for which Unicode has no lowercase form, so
  that \<^verbatim>\<open>lower()\<close> returns it unchanged; it is neither whitespace nor a digit. The
  string methods below follow what \<^verbatim>\<open>str\<close> does on these code points; text with other
  code points is outside the model. \<open>ustr s\<close> is the text of the characters of \<open>s\<close>.
  Python integers are unbounded and are modelled as \<open>int\<close>; the interpreter's
  configurable limit on the number of digits \<^verbatim>\<open>int()\<close> converts is not part of the
  model.
\<close>

datatype uchar = Latin1 char | Upsilon_hook

type_synonym ustring = "uchar list"

definition ustr :: "string \<Rightarrow> ustring" where
  "ustr s = map Latin1 s"

definition isspace :: "uchar \<Rightarrow> bool" where
  \<comment> \<open>\<^verbatim>\<open>str.isspace\<close> on one character: TAB..CR, FS..US, space, NEL, NBSP.\<close>
  "isspace u =
     (case u of
        Latin1 c \<Rightarrow>
          (let n = (of_char c :: nat)
           in (9 \<le> n \<and> n \<le> 13) \<or> (28 \<le> n \<and> n \<le> 32) \<or> n = 133 \<or> n = 160)
      | Upsilon_hook \<Rightarrow> False)"

definition strip :: "ustring \<Rightarrow> ustring" where
  \<comment> \<open>\<^verbatim>\<open>str.strip()\<close>: whitespace removed at both ends.\<close>
  "strip s = rev (dropWhile isspace (rev (dropWhile isspace s)))"

definition has_lower :: "char \<Rightarrow> bool" where
  \<comment> \<open>the code points up to 255 that \<^verbatim>\<open>str.lower()\<close> changes: A..Z and the Latin-1
      capitals.\<close>
  "has_lower c =
     (let n = (of_char c :: nat)
      in (65 \<le> n \<and> n \<le> 90) \<or> (192 \<le> n \<and> n \<le> 222 \<and> n \<noteq> 215))"


definition lower_char :: "uchar \<Rightarrow> uchar" where
  "lower_char u =
     (case u of
        Latin1 c \<Rightarrow> Latin1 (if has_lower c then char_of ((of_char c :: nat) + 32) else c)
      | Upsilon_hook \<Rightarrow> Upsilon_hook)"

definition lower :: "ustring \<Rightarrow> ustring" where
  \<comment> \<open>\<^verbatim>\<open>str.lower()\<close>\<close>
  "lower s = map lower_char s"

fun split_acc :: "uchar \<Rightarrow> ustring \<Rightarrow> ustring \<Rightarrow> ustring list" where
  "split_acc d cur [] = [rev cur]"
| "split_acc d cur (c # cs) =
     (if c = d then rev cur # split_acc d [] cs else split_acc d (c # cur) cs)"

definition split :: "ustring \<Rightarrow> uchar \<Rightarrow> ustring list" where
  \<comment> \<open>\<^verbatim>\<open>line.split(splitChar)\<close> with a one-character separator: the empty string
      gives one empty field, and n separators give n + 1 fields.\<close>
  "split s d = split_acc d [] s"

fun join :: "ustring \<Rightarrow> ustring list \<Rightarrow> ustring" where
  \<comment> \<open>\<^verbatim>\<open>sep.join(parts)\<close>\<close>
  "join sep [] = []"
| "join sep [p] = p"
| "join sep (p # q # ps) = p @ sep @ join sep (q # ps)"

definition isdigit :: "uchar \<Rightarrow> bool" where
  "isdigit u =
     (case u of
        Latin1 c \<Rightarrow> (let n = (of_char c :: nat) in 48 \<le> n \<and> n \<le> 57)
      | Upsilon_hook \<Rightarrow> False)"

definition digit_val :: "uchar \<Rightarrow> nat" where
  \<comment> \<open>the value of a digit; applied to digits only.\<close>
  "digit_val u = (case u of Latin1 c \<Rightarrow> (of_char c :: nat) - 48 | Upsilon_hook \<Rightarrow> 0)"

datatype py_error =
    ValueError_int ustring            \<comment> \<open>invalid literal for int() with base 10\<close>
  | ValueError_enum ustring ustring    \<comment> \<open>value is not a valid member of the named Enum\<close>
  | TypeError                        \<comment> \<open>wrong number of constructor arguments\<close>
  | OSError ustring                   \<comment> \<open>the file at this path cannot be opened\<close>

fun digits_acc :: "nat \<Rightarrow> ustring \<Rightarrow> nat option" where
  \<comment> \<open>the digits after the first one; a single underscore may stand between two digits.\<close>
  "digits_acc acc [] = Some acc"
| "digits_acc acc [c] = (if isdigit c then Some (10 * acc + digit_val c) else None)"
| "digits_acc acc (c # d # cs) =
     (if isdigit c then digits_acc (10 * acc + digit_val c) (d # cs)
      else if c = Latin1 (CHR ''_'') \<and> isdigit d then digits_acc (10 * acc + digit_val d) cs
      else None)"

definition digits :: "ustring \<Rightarrow> nat option" where
  "digits s = (case s of [] \<Rightarrow> None
               | c # cs \<Rightarrow> if isdigit c then digits_acc (digit_val c) cs else None)"

definition int_isspace :: "uchar \<Rightarrow> bool" where
  \<comment> \<open>the whitespace \<^verbatim>\<open>int()\<close> skips around a literal.\<close>
  "int_isspace u =
     (case u of
        Latin1 c \<Rightarrow>
          (let n = (of_char c :: nat) in (9 \<le> n \<and> n \<le> 13) \<or> n = 32 \<or> n = 133 \<or> n = 160)
      | Upsilon_hook \<Rightarrow> False)"

definition py_int :: "ustring \<Rightarrow> py_error + int" where
  \<comment> \<open>\<^verbatim>\<open>int(v)\<close> on a string: optional surrounding whitespace, optional sign, decimal
      digits. Anything else raises ValueError.\<close>
  "py_int v =
     (let t = rev (dropWhile int_isspace (rev (dropWhile int_isspace v)))
      in case t of
           [] \<Rightarrow> Inl (ValueError_int v)
         | c # cs \<Rightarrow>
             if c = Latin1 (CHR ''-'') then
               (case digits cs of None \<Rightarrow> Inl (ValueError_int v) | Some n \<Rightarrow> Inr (- int n))
             else if c = Latin1 (CHR ''+'') then
               (case digits cs of None \<Rightarrow> Inl (ValueError_int v) | Some n \<Rightarrow> Inr (int n))
             else
               (case digits t of None \<Rightarrow> Inl (ValueError_int v) | Some n \<Rightarrow> Inr (int n)))"

definition py_str :: "ustring \<Rightarrow> py_error + ustring" where
  \<comment> \<open>\<^verbatim>\<open>str(v)\<close> on a string never fails.\<close>
  "py_str v = Inr v"

definition digit_char :: "nat \<Rightarrow> uchar" where
  "digit_char n = Latin1 (char_of (48 + n))"

fun str_nat :: "nat \<Rightarrow> ustring" where
  "str_nat n = (if n < 10 then [digit_char n] else str_nat (n div 10) @ [digit_char (n mod 10)])"

declare str_nat.simps [simp del]

definition str_int :: "int \<Rightarrow> ustring" where
  \<comment> \<open>how an f-string formats an integer: decimal, with a minus sign when negative.\<close>
  "str_int i = (if i < 0 then Latin1 (CHR ''-'') # str_nat (nat (- i)) else str_nat (nat i))"

fun replace :: "ustring \<Rightarrow> ustring \<Rightarrow> ustring \<Rightarrow> ustring" where
  \<comment> \<open>\<^verbatim>\<open>s.replace(old, new)\<close> for a non-empty \<open>old\<close>: the occurrences are replaced
      from the left, without overlap.\<close>
  "replace old new [] = []"
| "replace old new (c # cs) =
     (if old \<noteq> [] \<and> take (length old) (c # cs) = old
      then new @ replace old new (drop (length old) (c # cs))
      else c # replace old new cs)"

section \<open>Data model\<close>

datatype IANAProtocolNum = ICMP | IPv4 | TCP | UDP | IPv6

datatype Action = ACCEPT | REJECT | UNKNOWN

datatype LogStatus = ACCEPT | REJECT | UNKNOWN

definition IANAProtocolNum_value :: "IANAProtocolNum \<Rightarrow> ustring" where
  "IANAProtocolNum_value p =
     (case p of ICMP \<Rightarrow> ustr ''1'' | IPv4 \<Rightarrow> ustr ''4'' | TCP \<Rightarrow> ustr ''6'' | UDP \<Rightarrow> ustr ''17''
       | IPv6 \<Rightarrow> ustr ''41'')"

definition IANAProtocolNum_name :: "IANAProtocolNum \<Rightarrow> ustring" where
  "IANAProtocolNum_name p =
     (case p of ICMP \<Rightarrow> ustr ''ICMP'' | IPv4 \<Rightarrow> ustr ''IPv4'' | TCP \<Rightarrow> ustr ''TCP'' | UDP \<Rightarrow> ustr ''UDP''
              | IPv6 \<Rightarrow> ustr ''IPv6'')"

definition IANAProtocolNum_of :: "ustring \<Rightarrow> py_error + IANAProtocolNum" where
  \<comment> \<open>\<^verbatim>\<open>IANAProtocolNum(v)\<close>: the member whose value is \<open>v\<close>, or ValueError.\<close>
  "IANAProtocolNum_of v =
     (if v = ustr ''1'' then Inr ICMP
      else if v = ustr ''4'' then Inr IPv4
      else if v = ustr ''6'' then Inr TCP
      else if v = ustr ''17'' then Inr UDP
      else if v = ustr ''41'' then Inr IPv6
      else Inl (ValueError_enum (ustr ''IANAProtocolNum'') v))"

definition Action_of :: "ustring \<Rightarrow> py_error + Action" where
  "Action_of v =
     (if v = ustr ''ACCEPT'' then Inr Action.ACCEPT
      else if v = ustr ''REJECT'' then Inr Action.REJECT
      else if v = ustr ''-'' then Inr Action.UNKNOWN
      else Inl (ValueError_enum (ustr ''Action'') v))"

definition LogStatus_of :: "ustring \<Rightarrow> py_error + LogStatus" where
  "LogStatus_of v =
     (if v = ustr ''OK'' then Inr LogStatus.ACCEPT
      else if v = ustr ''NODATA'' then Inr LogStatus.REJECT
      else if v = ustr ''SKIPDATA'' then Inr LogStatus.UNKNOWN
      else Inl (ValueError_enum (ustr ''LogStatus'') v))"

definition str_IANAProtocolNum :: "IANAProtocolNum \<Rightarrow> ustring" where
  \<comment> \<open>\<^verbatim>\<open>str(member)\<close> of a plain Enum: class name, a dot, member name.\<close>
  "str_IANAProtocolNum p = ustr ''IANAProtocolNum.'' @ IANAProtocolNum_name p"

record TagRecord =
  dstPort :: int
  protocol :: ustring
  tag :: ustring

record FlowLogRecordV2 =
  version :: int
  accountId :: ustring
  interfaceId :: ustring
  srcAddr :: ustring
  dstAddr :: ustring
  srcPort :: int
  dstPort :: int
  protocol :: IANAProtocolNum
  packets :: int
  numBytes :: int
  startTimeSecs :: int
  endTimeSecs :: int
  action :: Action
  logStatus :: LogStatus

section \<open>Record Parser\<close>

text \<open>
  A file is its text as Python's text layer delivers it, in an encoding that has every
  character of the text. Iterating a file gives its lines, each with its terminating
  newline, the last one possibly without.
\<close>

fun lines_acc :: "ustring \<Rightarrow> ustring \<Rightarrow> ustring list" where
  "lines_acc cur [] = (if cur = [] then [] else [rev cur])"
| "lines_acc cur (c # cs) =
     (if c = Latin1 (CHR 0x0A) then rev (c # cur) # lines_acc [] cs else lines_acc (c # cur) cs)"

definition file_lines :: "ustring \<Rightarrow> ustring list" where
  "file_lines text = lines_acc [] text"

type_synonym filesystem = "ustring \<rightharpoonup> ustring"

datatype log_level = DEBUG | INFO | WARNING

datatype log_msg =
    CSV_Header ustring                  \<comment> \<open>\<^verbatim>\<open>CSV Header:{header}\<close>\<close>
  | Skipping_invalid_record ustring     \<comment> \<open>\<^verbatim>\<open>Skipping invalid record: {joined parts}\<close>\<close>
  | Skipping_line ustring py_error      \<comment> \<open>\<^verbatim>\<open>Skipping line:{joined parts}, Error:{e}\<close>\<close>
  | Completed_parsing ustring int int int
      \<comment> \<open>\<^verbatim>\<open>Completed parsing all {name} records. OK:{..},skipped:{..},total:{..}\<close>\<close>
  | Flow_seen ustring                   \<comment> \<open>\<^verbatim>\<open>{dstPort},{protocol value}\<close>, logged by main\<close>

datatype out_event = Print ustring | Logged log_level log_msg

text \<open>
  A generator is the sequence of what it does, in order: the values it yields and the
  log entries it emits between them.
\<close>

datatype 'a gen_item = Yield 'a | Emit out_event

definition yielded :: "'a gen_item list \<Rightarrow> 'a list" where
  "yielded items = List.map_filter (\<lambda>i. case i of Yield x \<Rightarrow> Some x | Emit _ \<Rightarrow> None) items"

definition emitted :: "'a gen_item list \<Rightarrow> out_event list" where
  "emitted items = List.map_filter (\<lambda>i. case i of Yield _ \<Rightarrow> None | Emit e \<Rightarrow> Some e) items"

definition genFields ::
  "filesystem \<Rightarrow> ustring \<Rightarrow> (ustring \<Rightarrow> ustring) \<Rightarrow> uchar \<Rightarrow> py_error + ustring list gen_item list"
where
  "genFields fs path lineLambda splitChar =
     (case fs path of
        None \<Rightarrow> Inl (OSError path)
      | Some text \<Rightarrow>
          (let f = file_lines text;
               header = (case f of [] \<Rightarrow> [] | h # _ \<Rightarrow> h)
           in Inr (Emit (Logged INFO (CSV_Header (strip header)))
                   # map (\<lambda>line. Yield (split (lineLambda line) splitChar)) (drop 1 f))))"

definition sum_bind :: "py_error + 'a \<Rightarrow> ('a \<Rightarrow> py_error + 'b) \<Rightarrow> py_error + 'b" where
  \<comment> \<open>evaluation in order: the first exception raised is the one that propagates.\<close>
  "sum_bind m k = (case m of Inl e \<Rightarrow> Inl e | Inr x \<Rightarrow> k x)"

text \<open>
  A record class, as \<open>genRecord\<close> uses it: its \<^verbatim>\<open>__name__\<close>, the number of its
  annotations, and \<^verbatim>\<open>recordCls(*[_typ(v) for _typ, v in zip(_types, parts)])\<close>, the
  coercion of the fields in declaration order followed by the constructor call.
  \<open>genRecord\<close> calls the latter only on a list of the right length.
\<close>

record 'r record_cls =
  cls_name :: ustring
  cls_len_types :: nat
  cls_construct :: "ustring list \<Rightarrow> py_error + 'r"

definition TagRecord_construct :: "ustring list \<Rightarrow> py_error + TagRecord" where
  "TagRecord_construct parts =
     (if length parts \<noteq> 3 then Inl TypeError
      else
      sum_bind (py_int (parts ! 0)) (\<lambda>v0.
      sum_bind (py_str (parts ! 1)) (\<lambda>v1.
      sum_bind (py_str (parts ! 2)) (\<lambda>v2.
      Inr \<lparr>TagRecord.dstPort = v0, TagRecord.protocol = v1, tag = v2\<rparr>))))"

definition TagRecord_cls :: "TagRecord record_cls" where
  "TagRecord_cls =
     \<lparr>cls_name = ustr ''TagRecord'', cls_len_types = 3, cls_construct = TagRecord_construct\<rparr>"

definition FlowLogRecordV2_construct :: "ustring list \<Rightarrow> py_error + FlowLogRecordV2" where
  "FlowLogRecordV2_construct parts =
     (if length parts \<noteq> 14 then Inl TypeError
      else
      sum_bind (py_int (parts ! 0)) (\<lambda>v0.
      sum_bind (py_str (parts ! 1)) (\<lambda>v1.
      sum_bind (py_str (parts ! 2)) (\<lambda>v2.
      sum_bind (py_str (parts ! 3)) (\<lambda>v3.
      sum_bind (py_str (parts ! 4)) (\<lambda>v4.
      sum_bind (py_int (parts ! 5)) (\<lambda>v5.
      sum_bind (py_int (parts ! 6)) (\<lambda>v6.
      sum_bind (IANAProtocolNum_of (parts ! 7)) (\<lambda>v7.
      sum_bind (py_int (parts ! 8)) (\<lambda>v8.
      sum_bind (py_int (parts ! 9)) (\<lambda>v9.
      sum_bind (py_int (parts ! 10)) (\<lambda>v10.
      sum_bind (py_int (parts ! 11)) (\<lambda>v11.
      sum_bind (Action_of (parts ! 12)) (\<lambda>v12.
      sum_bind (LogStatus_of (parts ! 13)) (\<lambda>v13.
      Inr \<lparr>version = v0, accountId = v1, interfaceId = v2, srcAddr = v3,
           dstAddr = v4, srcPort = v5, dstPort = v6, protocol = v7, packets = v8,
           numBytes = v9, startTimeSecs = v10, endTimeSecs = v11, action = v12,
           logStatus = v13\<rparr>)))))))))))))))"

definition FlowLogRecordV2_cls :: "FlowLogRecordV2 record_cls" where
  "FlowLogRecordV2_cls =
     \<lparr>cls_name = ustr ''FlowLogRecordV2'', cls_len_types = 14,
      cls_construct = FlowLogRecordV2_construct\<rparr>"

fun genRecord_loop ::
  "'r record_cls \<Rightarrow> int \<Rightarrow> int \<Rightarrow> ustring list gen_item list \<Rightarrow> 'r gen_item list"
where
  "genRecord_loop recordCls counter skipped [] =
     [Emit (Logged INFO
        (Completed_parsing (cls_name recordCls) counter skipped (skipped + counter)))]"
| "genRecord_loop recordCls counter skipped (Emit e # rest) =
     Emit e # genRecord_loop recordCls counter skipped rest"
| "genRecord_loop recordCls counter skipped (Yield parts # rest) =
     (if length parts \<noteq> cls_len_types recordCls then
        Emit (Logged INFO (Skipping_invalid_record (join (ustr '','') parts)))
        # genRecord_loop recordCls counter skipped rest
      else
        (case cls_construct recordCls parts of
           Inr r \<Rightarrow> Yield r # genRecord_loop recordCls (counter + 1) skipped rest
         | Inl e \<Rightarrow>
             Emit (Logged WARNING (Skipping_line (join (ustr '','') parts) e))
             # genRecord_loop recordCls counter (skipped + 1) rest))"

definition genRecord ::
  "filesystem \<Rightarrow> ustring \<Rightarrow> 'r record_cls \<Rightarrow> (ustring \<Rightarrow> ustring) \<Rightarrow> py_error + 'r gen_item list"
where
  "genRecord fs path recordCls lineLambda =
     (case genFields fs path lineLambda (Latin1 (CHR '','')) of
        Inl e \<Rightarrow> Inl e
      | Inr items \<Rightarrow> Inr (genRecord_loop recordCls 0 0 items))"

section \<open>Tag Table Builder, Flow Aggregator and Report Writer\<close>

text \<open>
  \<open>tagMappings\<close> is a Python dict from \<^verbatim>\<open>(dstPort, protocol)\<close> to the two-element
  list \<^verbatim>\<open>[tagRecord, count]\<close>: an association list in insertion order, the value a
  pair whose first component is index 0 and whose second is index \<^verbatim>\<open>COUNT\<close> = 1.
  Assigning to a key that is present replaces the value where it stands; a new key
  goes to the end (\<open>AList.update\<close>).
\<close>

type_synonym tag_table = "((int \<times> ustring) \<times> (TagRecord \<times> int)) list"

record main_state =
  tagMappings :: tag_table
  untaggedCounter :: int
  stdout :: "out_event list"

fun tag_loop :: "main_state \<Rightarrow> TagRecord gen_item list \<Rightarrow> main_state" where
  "tag_loop st [] = st"
| "tag_loop st (Emit e # rest) = tag_loop (st\<lparr>stdout := stdout st @ [e]\<rparr>) rest"
| "tag_loop st (Yield tagRecord # rest) =
     tag_loop
       (st\<lparr>tagMappings :=
            AList.update (TagRecord.dstPort tagRecord, TagRecord.protocol tagRecord)
              (tagRecord, 0) (tagMappings st)\<rparr>)
       rest"

definition protocolStr_of :: "FlowLogRecordV2 \<Rightarrow> ustring" where
  \<comment> \<open>\<^verbatim>\<open>str(flowRecord.protocol).lower().replace("ianaprotocolnum.","")\<close>\<close>
  "protocolStr_of flowRecord =
     replace (ustr ''ianaprotocolnum.'') [] (lower (str_IANAProtocolNum (protocol flowRecord)))"

definition flow_step :: "main_state \<Rightarrow> FlowLogRecordV2 \<Rightarrow> main_state" where
  "flow_step st flowRecord =
     (let protocolStr = protocolStr_of flowRecord;
          st1 = st\<lparr>stdout := stdout st @
                  [Logged INFO (Flow_seen (str_int (dstPort flowRecord) @ ustr '','' @
                                           IANAProtocolNum_value (protocol flowRecord)))]\<rparr>
      in if (dstPort flowRecord, protocolStr) \<in> set (map fst (tagMappings st1))
         then st1\<lparr>tagMappings :=
                AList.map_entry (dstPort flowRecord, protocolStr)
                  (\<lambda>(tagRecord, count). (tagRecord, count + 1)) (tagMappings st1)\<rparr>
         else st1\<lparr>untaggedCounter := untaggedCounter st1 + 1\<rparr>)"

fun flow_loop :: "main_state \<Rightarrow> FlowLogRecordV2 gen_item list \<Rightarrow> main_state" where
  "flow_loop st [] = st"
| "flow_loop st (Emit e # rest) = flow_loop (st\<lparr>stdout := stdout st @ [e]\<rparr>) rest"
| "flow_loop st (Yield flowRecord # rest) = flow_loop (flow_step st flowRecord) rest"

text \<open>
  \<open>tagCounts\<close> is a \<^verbatim>\<open>defaultdict(int)\<close>: \<^verbatim>\<open>tagCounts[t] += c\<close> on a missing key
  stores \<open>0 + c\<close> at the end. The loop visits the keys of \<open>tagMappings\<close> in order and
  reads the value stored at each, which is the entry itself.
\<close>

fun tagCounts_loop :: "(ustring \<times> int) list \<Rightarrow> tag_table \<Rightarrow> (ustring \<times> int) list" where
  "tagCounts_loop tagCounts [] = tagCounts"
| "tagCounts_loop tagCounts (((port, protocolStr), (tagRecord, count)) # rest) =
     tagCounts_loop
       (AList.map_default (tag tagRecord) (0 + count) (\<lambda>n. n + count) tagCounts) rest"

definition newline :: ustring where
  "newline = [Latin1 (CHR 0x0A)]"

definition tag_line :: "ustring \<times> int \<Rightarrow> ustring" where
  "tag_line tc = (case tc of (t, count) \<Rightarrow> t @ ustr '','' @ str_int count @ newline)"

definition key_line :: "(int \<times> ustring) \<times> (TagRecord \<times> int) \<Rightarrow> ustring" where
  "key_line e =
     (case e of ((port, protocolStr), (tagRecord, count)) \<Rightarrow>
        str_int port @ ustr '','' @ protocolStr @ ustr '','' @ str_int count @ newline)"

definition report_writes :: "tag_table \<Rightarrow> int \<Rightarrow> ustring list" where
  \<comment> \<open>the arguments of the successive \<^verbatim>\<open>f.write\<close> calls.\<close>
  "report_writes tm untagged =
     [ustr ''Tag,Count'' @ newline]
     @ map tag_line (tagCounts_loop [] tm)
     @ [ustr ''Port,Protocol,Count'' @ newline]
     @ map key_line tm
     @ [ustr ''Untagged,'' @ str_int untagged @ newline]"

record outcome =
  raised :: "py_error option"
  out :: "out_event list"
  files :: filesystem
  opened :: "ustring list"

definition initial_state :: main_state where
  "initial_state = \<lparr>tagMappings = [], untaggedCounter = 0, stdout = []\<rparr>"

definition build_table :: "filesystem \<Rightarrow> ustring \<Rightarrow> py_error + main_state" where
  \<comment> \<open>the first loop of \<open>main\<close>: the tag table, every counter at 0.\<close>
  "build_table fs tagMappingsPath =
     (case genRecord fs tagMappingsPath TagRecord_cls (\<lambda>line. lower (strip line)) of
        Inl e \<Rightarrow> Inl e
      | Inr tagItems \<Rightarrow> Inr (tag_loop initial_state tagItems))"

definition aggregate :: "filesystem \<Rightarrow> ustring \<Rightarrow> main_state \<Rightarrow> py_error + main_state" where
  \<comment> \<open>the second loop of \<open>main\<close>: the pass over the flow records.\<close>
  "aggregate fs flowlogsPath st =
     (case genRecord fs flowlogsPath FlowLogRecordV2_cls strip of
        Inl e \<Rightarrow> Inl e
      | Inr flowItems \<Rightarrow> Inr (flow_loop st flowItems))"

definition main :: "filesystem \<Rightarrow> ustring \<Rightarrow> ustring \<Rightarrow> ustring \<Rightarrow> outcome" where
  \<comment> \<open>\<open>opened\<close> lists the paths passed to \<^verbatim>\<open>open\<close>, in order. An input that cannot
      be opened raises; opening the output for writing is taken to succeed.\<close>
  "main fs flowlogsPath tagMappingsPath outputPath =
     (case build_table fs tagMappingsPath of
        Inl e \<Rightarrow>
          \<lparr>raised = Some e, out = stdout initial_state, files = fs,
           opened = [tagMappingsPath]\<rparr>
      | Inr st1 \<Rightarrow>
          (case aggregate fs flowlogsPath st1 of
             Inl e \<Rightarrow>
               \<lparr>raised = Some e, out = stdout st1, files = fs,
                opened = [tagMappingsPath, flowlogsPath]\<rparr>
           | Inr st2 \<Rightarrow>
               \<lparr>raised = None, out = stdout st2,
                files = fs(outputPath \<mapsto>
                  concat (report_writes (tagMappings st2) (untaggedCounter st2))),
                opened = [tagMappingsPath, flowlogsPath, outputPath]\<rparr>))"

definition usage :: "out_event list" where
  "usage =
     [Print (ustr ''python3 main.py <PATH_TO_FLOW_LOGS.csv> <PATH_TO_TAG_MAPPINGS.csv> <PATH_TO_OUTPUT.csv>'')]"

record process_result =
  exit_status :: int
  printed :: "out_event list"
  files_after :: filesystem
  files_opened :: "ustring list"

definition program :: "ustring list \<Rightarrow> filesystem \<Rightarrow> process_result" where
  \<comment> \<open>the \<^verbatim>\<open>__main__\<close> block; \<open>argv\<close> is \<^verbatim>\<open>sys.argv\<close>, the script name first. An
      exception that leaves \<open>main\<close> ends the process with status 1.\<close>
  "program argv fs =
     (if length argv \<noteq> 4 then
        \<lparr>exit_status = 1, printed = usage, files_after = fs, files_opened = []\<rparr>
      else
        (let r = main fs (argv ! 1) (argv ! 2) (argv ! 3)
         in \<lparr>exit_status = (case raised r of None \<Rightarrow> 0 | Some e \<Rightarrow> 1),
             printed = out r, files_after = files r, files_opened = opened r\<rparr>))"

section \<open>Notions used in the statements\<close>

definition parse :: "'r record_cls \<Rightarrow> ustring list \<Rightarrow> 'r option" where
  \<comment> \<open>the record that \<open>genRecord\<close> yields for one list of fields, if it yields one.\<close>
  "parse recordCls parts =
     (if length parts \<noteq> cls_len_types recordCls then None
      else case cls_construct recordCls parts of Inr r \<Rightarrow> Some r | Inl e \<Rightarrow> None)"

definition tag_key :: "TagRecord \<Rightarrow> int \<times> ustring" where
  \<comment> \<open>the key under which the builder stores a tag record.\<close>
  "tag_key r = (TagRecord.dstPort r, TagRecord.protocol r)"

definition flow_key :: "FlowLogRecordV2 \<Rightarrow> int \<times> ustring" where
  \<comment> \<open>the key the aggregator looks up for a flow record.\<close>
  "flow_key r = (dstPort r, protocolStr_of r)"

definition counters :: "tag_table \<Rightarrow> int list" where
  \<comment> \<open>the per-key counters of a table, in key order.\<close>
  "counters tm = map (\<lambda>e. snd (snd e)) tm"

definition protocol_names :: "ustring set" where
  \<comment> \<open>the lowercase canonical names of the five protocol codes.\<close>
  "protocol_names = {ustr ''icmp'', ustr ''ipv4'', ustr ''tcp'', ustr ''udp'', ustr ''ipv6''}"

definition tags_of :: "tag_table \<Rightarrow> ustring list" where
  \<comment> \<open>the tag of each entry, in key order.\<close>
  "tags_of tm = map (\<lambda>e. tag (fst (snd e))) tm"

definition tag_total :: "tag_table \<Rightarrow> ustring \<Rightarrow> int" where
  \<comment> \<open>the sum of the counters of the entries that carry a given tag.\<close>
  "tag_total tm t = sum_list (counters (filter (\<lambda>e. tag (fst (snd e)) = t) tm))"

definition first_occurrences :: "'a list \<Rightarrow> 'a list" where
  \<comment> \<open>the distinct elements of a list, each at the place of its first occurrence.\<close>
  "first_occurrences xs = rev (remdups (rev xs))"

section \<open>Example inputs\<close>

definition example_tags :: ustring where
  "example_tags =
     ustr ''dstport,protocol,tag'' @ newline @
     ustr ''25,tcp,email'' @ newline @
     ustr ''443,TCP,Web'' @ newline @
     ustr ''443,tcp,Secure'' @ newline @
     ustr ''25,sctp,Email'' @ newline"

definition flow_header :: ustring where
  "flow_header =
     ustr ''version,account,eni,src,dst,srcport,dstport,protocol,packets,bytes,start,end,action,status''
       @ newline"

definition line_443 :: ustring where
  "line_443 =
     ustr ''2,acct,eni-1,10.0.0.1,10.0.0.2,49153,443,6,25,20000,1620140761,1620140821,ACCEPT,OK''
       @ newline"

definition line_short :: ustring where
  \<comment> \<open>13 fields: the log status is missing.\<close>
  "line_short =
     ustr ''2,acct,eni-1,10.0.0.1,10.0.0.2,49153,80,6,25,20000,1620140761,1620140821,ACCEPT''
       @ newline"

definition line_99 :: ustring where
  \<comment> \<open>14 fields, protocol 99.\<close>
  "line_99 =
     ustr ''2,acct,eni-1,10.0.0.1,10.0.0.2,49153,25,99,25,20000,1620140761,1620140821,ACCEPT,OK''
       @ newline"

definition line_80 :: ustring where
  "line_80 =
     ustr ''2,acct,eni-1,10.0.0.1,10.0.0.2,49153,80,17,1,60,1620140761,1620140821,REJECT,OK''
       @ newline"

definition line_25 :: ustring where
  "line_25 =
     ustr ''2,acct,eni-2,10.0.0.3,10.0.0.2,49154,25,6,3,180,1620140761,1620140821,ACCEPT,OK''
       @ newline"

definition example_flows :: ustring where
  \<comment> \<open>five data lines: one with 13 fields and one with protocol 99 among three good ones.\<close>
  "example_flows = flow_header @ line_443 @ line_short @ line_99 @ line_80 @ line_25"

definition example_fs :: filesystem where
  "example_fs = [ustr ''tags.csv'' \<mapsto> example_tags, ustr ''flows.csv'' \<mapsto> example_flows]"

definition example_tag_items :: "TagRecord gen_item list" where
  "example_tag_items =
     [Emit (Logged INFO (CSV_Header (ustr ''dstport,protocol,tag''))),
      Yield \<lparr>TagRecord.dstPort = 25, protocol = ustr ''tcp'', tag = ustr ''email''\<rparr>,
      Yield \<lparr>TagRecord.dstPort = 443, protocol = ustr ''tcp'', tag = ustr ''web''\<rparr>,
      Yield \<lparr>TagRecord.dstPort = 443, protocol = ustr ''tcp'', tag = ustr ''secure''\<rparr>,
      Yield \<lparr>TagRecord.dstPort = 25, protocol = ustr ''sctp'', tag = ustr ''email''\<rparr>,
      Emit (Logged INFO (Completed_parsing (ustr ''TagRecord'') 4 0 4))]"

definition example_flow_443 :: FlowLogRecordV2 where
  "example_flow_443 =
     \<lparr>version = 2, accountId = ustr ''acct'', interfaceId = ustr ''eni-1'',
      srcAddr = ustr ''10.0.0.1'',
      dstAddr = ustr ''10.0.0.2'', srcPort = 49153, dstPort = 443, protocol = TCP, packets = 25,
      numBytes = 20000, startTimeSecs = 1620140761, endTimeSecs = 1620140821,
      action = Action.ACCEPT, logStatus = LogStatus.ACCEPT\<rparr>"

definition example_flow_80 :: FlowLogRecordV2 where
  "example_flow_80 =
     \<lparr>version = 2, accountId = ustr ''acct'', interfaceId = ustr ''eni-1'',
      srcAddr = ustr ''10.0.0.1'',
      dstAddr = ustr ''10.0.0.2'', srcPort = 49153, dstPort = 80, protocol = UDP, packets = 1,
      numBytes = 60, startTimeSecs = 1620140761, endTimeSecs = 1620140821,
      action = Action.REJECT, logStatus = LogStatus.ACCEPT\<rparr>"

definition example_flow_25 :: FlowLogRecordV2 where
  "example_flow_25 =
     \<lparr>version = 2, accountId = ustr ''acct'', interfaceId = ustr ''eni-2'',
      srcAddr = ustr ''10.0.0.3'',
      dstAddr = ustr ''10.0.0.2'', srcPort = 49154, dstPort = 25, protocol = TCP, packets = 3,
      numBytes = 180, startTimeSecs = 1620140761, endTimeSecs = 1620140821,
      action = Action.ACCEPT, logStatus = LogStatus.ACCEPT\<rparr>"

definition example_flow_items :: "FlowLogRecordV2 gen_item list" where
  "example_flow_items =
     [Emit (Logged INFO (CSV_Header
        (ustr ''version,account,eni,src,dst,srcport,dstport,protocol,packets,bytes,start,end,action,status''))),
      Yield example_flow_443,
      Emit (Logged INFO (Skipping_invalid_record
        (ustr ''2,acct,eni-1,10.0.0.1,10.0.0.2,49153,80,6,25,20000,1620140761,1620140821,ACCEPT''))),
      Emit (Logged WARNING (Skipping_line
        (ustr ''2,acct,eni-1,10.0.0.1,10.0.0.2,49153,25,99,25,20000,1620140761,1620140821,ACCEPT,OK'')
        (ValueError_enum (ustr ''IANAProtocolNum'') (ustr ''99'')))),
      Yield example_flow_80,
      Yield example_flow_25,
      Emit (Logged INFO (Completed_parsing (ustr ''FlowLogRecordV2'') 3 1 4))]"

definition example_table :: tag_table where
  \<comment> \<open>the table built from \<open>example_tags\<close>.\<close>
  "example_table =
     [((25, ustr ''tcp''),
       (\<lparr>TagRecord.dstPort = 25, protocol = ustr ''tcp'', tag = ustr ''email''\<rparr>, 0)),
      ((443, ustr ''tcp''),
       (\<lparr>TagRecord.dstPort = 443, protocol = ustr ''tcp'', tag = ustr ''secure''\<rparr>, 0)),
      ((25, ustr ''sctp''),
       (\<lparr>TagRecord.dstPort = 25, protocol = ustr ''sctp'', tag = ustr ''email''\<rparr>, 0))]"

definition example_st1 :: main_state where
  "example_st1 =
     \<lparr>tagMappings = example_table, untaggedCounter = 0, stdout = emitted example_tag_items\<rparr>"

definition example_final_table :: tag_table where
  \<comment> \<open>the table after the pass over \<open>example_flows\<close>.\<close>
  "example_final_table =
     [((25, ustr ''tcp''),
       (\<lparr>TagRecord.dstPort = 25, protocol = ustr ''tcp'', tag = ustr ''email''\<rparr>, 1)),
      ((443, ustr ''tcp''),
       (\<lparr>TagRecord.dstPort = 443, protocol = ustr ''tcp'', tag = ustr ''secure''\<rparr>, 1)),
      ((25, ustr ''sctp''),
       (\<lparr>TagRecord.dstPort = 25, protocol = ustr ''sctp'', tag = ustr ''email''\<rparr>, 0))]"

definition example_st2 :: main_state where
  "example_st2 =
     \<lparr>tagMappings = example_final_table, untaggedCounter = 1,
      stdout =
        emitted example_tag_items @
        [Logged INFO (CSV_Header
           (ustr ''version,account,eni,src,dst,srcport,dstport,protocol,packets,bytes,start,end,action,status'')),
         Logged INFO (Flow_seen (ustr ''443,6'')),
         Logged INFO (Skipping_invalid_record
           (ustr ''2,acct,eni-1,10.0.0.1,10.0.0.2,49153,80,6,25,20000,1620140761,1620140821,ACCEPT'')),
         Logged WARNING (Skipping_line
           (ustr ''2,acct,eni-1,10.0.0.1,10.0.0.2,49153,25,99,25,20000,1620140761,1620140821,ACCEPT,OK'')
           (ValueError_enum (ustr ''IANAProtocolNum'') (ustr ''99''))),
         Logged INFO (Flow_seen (ustr ''80,17'')),
         Logged INFO (Flow_seen (ustr ''25,6'')),
         Logged INFO (Completed_parsing (ustr ''FlowLogRecordV2'') 3 1 4)]\<rparr>"

definition example_report :: ustring where
  "example_report =
     ustr ''Tag,Count'' @ newline @
     ustr ''email,1'' @ newline @
     ustr ''secure,1'' @ newline @
     ustr ''Port,Protocol,Count'' @ newline @
     ustr ''25,tcp,1'' @ newline @
     ustr ''443,tcp,1'' @ newline @
     ustr ''25,sctp,0'' @ newline @
     ustr ''Untagged,1'' @ newline"

definition example_flows_without_short :: ustring where
  "example_flows_without_short = flow_header @ line_443 @ line_99 @ line_80 @ line_25"

definition example_flows_without_99 :: ustring where
  "example_flows_without_99 = flow_header @ line_443 @ line_short @ line_80 @ line_25"

definition short_flows :: ustring where
  \<comment> \<open>a header and one data line with 13 fields.\<close>
  "short_flows = flow_header @ line_short"

definition header_only_tags :: ustring where
  "header_only_tags = ustr ''dstport,protocol,tag'' @ newline"

definition header_only_fs :: filesystem where
  "header_only_fs = [ustr ''tags.csv'' \<mapsto> header_only_tags, ustr ''flows.csv'' \<mapsto> example_flows]"








section \<open>Facts about the string primitives\<close>

lemma ustr_eq_iff [simp]: "(ustr a = ustr b) = (a = b)"
  by (simp add: ustr_def inj_map_eq_map inj_on_def)

lemma ustr_Nil [simp]: "ustr [] = []"
  by (simp add: ustr_def)

lemma ustr_Cons: "ustr (c # s) = Latin1 c # ustr s"
  by (simp add: ustr_def)

lemma ustr_append: "ustr (a @ b) = ustr a @ ustr b"
  by (simp add: ustr_def)

lemma has_lower_lowered: "has_lower c \<Longrightarrow> \<not> has_lower (char_of ((of_char c :: nat) + 32))"
proof -
  assume c: "has_lower c"
  then have "(of_char c :: nat) + 32 < 256"
    by (auto simp: has_lower_def Let_def)
  then have "(of_char (char_of ((of_char c :: nat) + 32)) :: nat) = of_char c + 32"
    by simp
  with c show ?thesis
    by (auto simp: has_lower_def Let_def)
qed

lemma lower_char_idem: "lower_char (lower_char c) = lower_char c"
  by (cases c) (simp_all add: lower_char_def has_lower_lowered)

lemma lower_idem: "lower (lower s) = lower s"
  by (simp add: lower_def lower_char_idem)

lemma lower_unchanged: "c \<in> set (lower s) \<Longrightarrow> lower_char c = c"
  by (auto simp: lower_def lower_char_idem)

lemma split_acc_chars: "p \<in> set (split_acc d cur s) \<Longrightarrow> set p \<subseteq> set cur \<union> set s"
  by (induction d cur s rule: split_acc.induct) (auto split: if_splits)

lemma split_chars: "p \<in> set (split s d) \<Longrightarrow> set p \<subseteq> set s"
  using split_acc_chars [of p d "[]" s] by (simp add: split_def)

lemma split_acc_no_sep: "p \<in> set (split_acc d cur s) \<Longrightarrow> d \<notin> set cur \<Longrightarrow> d \<notin> set p"
  by (induction d cur s rule: split_acc.induct) (auto split: if_splits)

lemma split_no_sep: "p \<in> set (split s d) \<Longrightarrow> d \<notin> set p"
  using split_acc_no_sep [of p d "[]" s] by (simp add: split_def)

lemma strip_chars: "set (strip s) \<subseteq> set s"
proof -
  have "set (dropWhile isspace (rev (dropWhile isspace s))) \<subseteq> set (rev (dropWhile isspace s))"
    by (rule set_dropWhileD [THEN subsetI])
  also have "\<dots> \<subseteq> set s"
    using set_dropWhileD by fastforce
  finally show ?thesis by (simp add: strip_def)
qed

lemma dropWhile_rev_no_newline:
  assumes "Latin1 (CHR 0x0A) \<notin> set (butlast s)"
  shows "Latin1 (CHR 0x0A) \<notin> set (dropWhile isspace (rev s))"
proof (cases s rule: rev_cases)
  case Nil
  then show ?thesis by simp
next
  case (snoc xs x)
  with assms have xs: "Latin1 (CHR 0x0A) \<notin> set xs" by simp
  show ?thesis
  proof (cases "isspace x")
    case True
    have "set (dropWhile isspace (rev xs)) \<subseteq> set xs"
      using set_dropWhileD by fastforce
    with xs True snoc show ?thesis by auto
  next
    case False
    then have "x \<noteq> Latin1 (CHR 0x0A)" by (auto simp: isspace_def)
    with xs False snoc show ?thesis by auto
  qed
qed

lemma strip_no_newline:
  assumes "Latin1 (CHR 0x0A) \<notin> set (butlast l)"
  shows "Latin1 (CHR 0x0A) \<notin> set (strip l)"
proof -
  obtain n where n: "dropWhile isspace l = drop n l"
    by (metis dropWhile_eq_drop)
  have "set (butlast (drop n l)) \<subseteq> set (butlast l)"
    by (metis butlast_drop set_drop_subset)
  with assms n have "Latin1 (CHR 0x0A) \<notin> set (butlast (dropWhile isspace l))" by auto
  from dropWhile_rev_no_newline [OF this] show ?thesis by (simp add: strip_def)
qed

lemma lines_acc_newline:
  "l \<in> set (lines_acc cur body) \<Longrightarrow> Latin1 (CHR 0x0A) \<notin> set cur \<Longrightarrow> Latin1 (CHR 0x0A) \<notin> set (butlast l)"
  by (induction cur body rule: lines_acc.induct)
     (auto split: if_splits simp: butlast_rev dest: list.set_sel(2))

lemma file_lines_newline: "l \<in> set (file_lines body) \<Longrightarrow> Latin1 (CHR 0x0A) \<notin> set (butlast l)"
  using lines_acc_newline [of l "[]" body] by (simp add: file_lines_def)

lemma lower_char_newline: "lower_char c = Latin1 (CHR 0x0A) \<Longrightarrow> c = Latin1 (CHR 0x0A)"
  by (cases c)
     (auto simp: lower_char_def has_lower_def Let_def char_of_eq_iff take_bit_eq_mod
           split: if_splits)

lemma lower_no_newline:
  assumes "Latin1 (CHR 0x0A) \<notin> set s"
  shows "Latin1 (CHR 0x0A) \<notin> set (lower s)"
proof
  assume "Latin1 (CHR 0x0A) \<in> set (lower s)"
  then obtain c where c: "c \<in> set s" "lower_char c = Latin1 (CHR 0x0A)"
    unfolding lower_def by (metis (no_types) imageE list.set_map)
  from c(2) have "c = Latin1 (CHR 0x0A)" by (rule lower_char_newline)
  with c(1) assms show False by simp
qed

lemma lower_char_comma: "(lower_char c = Latin1 (CHR '','')) = (c = Latin1 (CHR '',''))"
  by (cases c)
     (auto simp: lower_char_def has_lower_def Let_def char_of_eq_iff take_bit_eq_mod
           split: if_splits)

lemma split_acc_lower:
  "split_acc (Latin1 (CHR '','')) (lower cur) (lower s) =
     map lower (split_acc (Latin1 (CHR '','')) cur s)"
proof (induction s arbitrary: cur)
  case Nil
  show ?case by (simp add: lower_def rev_map)
next
  case (Cons c s)
  from Cons [of "c # cur"] Cons [of "[]"] show ?case
    by (simp add: lower_def rev_map lower_char_comma)
qed

lemma split_lower: "split (lower s) (Latin1 (CHR '','')) = map lower (split s (Latin1 (CHR '','')))"
  using split_acc_lower [of "[]" s] by (simp add: split_def lower_def)

lemma lines_acc_line:
  "Latin1 (CHR 0x0A) \<notin> set b \<Longrightarrow>
   lines_acc cur (b @ Latin1 (CHR 0x0A) # rest) =
     (rev cur @ b @ [Latin1 (CHR 0x0A)]) # lines_acc [] rest"
  by (induction b arbitrary: cur) auto

lemma file_lines_concat:
  "(\<And>w. w \<in> set ws \<Longrightarrow> \<exists>b. w = b @ [Latin1 (CHR 0x0A)] \<and> Latin1 (CHR 0x0A) \<notin> set b) \<Longrightarrow>
   file_lines (concat ws) = ws"
proof (induction ws)
  case Nil
  show ?case by (simp add: file_lines_def)
next
  case (Cons w ws)
  from Cons.prems [of w] obtain b where b: "w = b @ [Latin1 (CHR 0x0A)]" "Latin1 (CHR 0x0A) \<notin> set b"
    by auto
  from Cons.IH Cons.prems have "lines_acc [] (concat ws) = ws"
    by (simp add: file_lines_def)
  with b show ?case
    using lines_acc_line [of b "[]" "concat ws"] by (simp add: file_lines_def)
qed

lemmas char_eval = char_of_def bit_0

lemma protocolStr_of_cases:
  "protocolStr_of r =
     (case protocol r of ICMP \<Rightarrow> ustr ''icmp'' | IPv4 \<Rightarrow> ustr ''ipv4'' | TCP \<Rightarrow> ustr ''tcp''
        | UDP \<Rightarrow> ustr ''udp'' | IPv6 \<Rightarrow> ustr ''ipv6'')"
  by (cases "protocol r")
     (simp_all add: protocolStr_of_def str_IANAProtocolNum_def IANAProtocolNum_name_def lower_def
        lower_char_def has_lower_def ustr_def char_eval)

lemma digit_char_isdigit: "n < 10 \<Longrightarrow> isdigit (digit_char n)"
proof -
  assume "n < 10"
  then have "(of_char (char_of (48 + n)) :: nat) = 48 + n"
    by simp
  with \<open>n < 10\<close> show ?thesis
    by (simp add: isdigit_def digit_char_def Let_def)
qed

lemma str_nat_digits: "c \<in> set (str_nat n) \<Longrightarrow> isdigit c"
proof (induction n rule: str_nat.induct)
  case (1 n)
  show ?case
  proof (cases "n < 10")
    case True
    with "1.prems" show ?thesis
      by (simp add: str_nat.simps [of n] digit_char_isdigit)
  next
    case False
    with "1.prems" "1.IH" show ?thesis
      by (auto simp: str_nat.simps [of n] digit_char_isdigit)
  qed
qed

lemma str_nat_nonempty: "str_nat n \<noteq> []"
  by (subst str_nat.simps) simp

lemma str_int_nonempty: "str_int i \<noteq> []"
  by (simp add: str_int_def str_nat_nonempty)

lemma str_int_last: "isdigit (last (str_int i))"
  using str_nat_digits [OF last_in_set [OF str_nat_nonempty]]
  by (simp add: str_int_def str_nat_nonempty)

lemma isdigit_not_newline: "isdigit c \<Longrightarrow> c \<noteq> Latin1 (CHR 0x0A)"
  by (auto simp: isdigit_def)

lemma str_nat_no_newline: "Latin1 (CHR 0x0A) \<notin> set (str_nat n)"
  using str_nat_digits [of "Latin1 (CHR 0x0A)" n] isdigit_not_newline [of "Latin1 (CHR 0x0A)"]
    by blast

lemma str_int_no_newline: "Latin1 (CHR 0x0A) \<notin> set (str_int i)"
  by (simp add: str_int_def str_nat_no_newline)

section \<open>Facts about the generators\<close>

lemma yielded_simps [simp]:
  "yielded [] = []"
  "yielded (Yield x # items) = x # yielded items"
  "yielded (Emit e # items) = yielded items"
  by (simp_all add: yielded_def map_filter_simps)

lemma yielded_append [simp]: "yielded (xs @ ys) = yielded xs @ yielded ys"
  by (simp add: yielded_def map_filter_def)

lemma yielded_map_Yield [simp]: "yielded (map Yield xs) = xs"
  by (induction xs) simp_all

lemma emitted_simps [simp]:
  "emitted [] = []"
  "emitted (Yield x # items) = emitted items"
  "emitted (Emit e # items) = e # emitted items"
  by (simp_all add: emitted_def map_filter_simps)

lemma yielded_genRecord_loop:
  "yielded (genRecord_loop recordCls counter skipped items) =
   List.map_filter (parse recordCls) (yielded items)"
  by (induction recordCls counter skipped items rule: genRecord_loop.induct)
     (auto simp: parse_def map_filter_simps split: sum.splits)

lemma genRecord_readable:
  "fs path = Some body \<Longrightarrow>
   genRecord fs path recordCls lineLambda =
     Inr (genRecord_loop recordCls 0 0
           (Emit (Logged INFO (CSV_Header (strip (case file_lines body of [] \<Rightarrow> [] | h # x \<Rightarrow> h))))
            # map (\<lambda>line. Yield (split (lineLambda line) (Latin1 (CHR '','')))) (drop 1 (file_lines body))))"
  by (simp add: genRecord_def genFields_def Let_def)

lemma genRecord_Inr_readable:
  "genRecord fs path recordCls lineLambda = Inr items \<Longrightarrow> \<exists>body. fs path = Some body"
  by (cases "fs path") (simp_all add: genRecord_def genFields_def)

lemma genRecord_same_file:
  "fs path = fs' path \<Longrightarrow>
   genRecord fs path recordCls lineLambda = genRecord fs' path recordCls lineLambda"
  by (simp add: genRecord_def genFields_def)

lemma genRecord_yielded:
  assumes "fs path = Some body"
  shows "\<exists>items. genRecord fs path recordCls lineLambda = Inr items \<and>
           yielded items =
             List.map_filter (\<lambda>line. parse recordCls (split (lineLambda line) (Latin1 (CHR '',''))))
               (drop 1 (file_lines body))"
proof -
  have "yielded (map (\<lambda>line. Yield (split (lineLambda line) (Latin1 (CHR '','')))) ls) =
        map (\<lambda>line. split (lineLambda line) (Latin1 (CHR '',''))) ls" for ls
    by (induction ls) simp_all
  then show ?thesis
    using assms
    by (simp add: genRecord_readable yielded_genRecord_loop map_filter_def filter_map comp_def)
qed

lemma parse_TagRecord:
  assumes "parse TagRecord_cls parts = Some tr"
  shows "length parts = 3" and "py_int (parts ! 0) = Inr (TagRecord.dstPort tr)"
    and "TagRecord.protocol tr = parts ! 1" and "tag tr = parts ! 2"
  using assms
  by (auto simp: parse_def TagRecord_cls_def TagRecord_construct_def sum_bind_def py_str_def
           split: if_splits sum.splits)

lemma parse_FlowLogRecordV2:
  assumes "parse FlowLogRecordV2_cls parts = Some fr"
  shows "length parts = 14" and "py_int (parts ! 6) = Inr (dstPort fr)"
    and "IANAProtocolNum_of (parts ! 7) = Inr (protocol fr)"
  using assms
  by (auto simp: parse_def FlowLogRecordV2_cls_def FlowLogRecordV2_construct_def sum_bind_def
           split: if_splits sum.splits)

lemma parse_FlowLogRecordV2_skipped:
  assumes "length parts \<noteq> 14 \<or> parts ! 7 \<notin> {ustr ''1'', ustr ''4'', ustr ''6'', ustr ''17'',
    ustr ''41''}"
  shows "parse FlowLogRecordV2_cls parts = None"
proof (cases "parse FlowLogRecordV2_cls parts")
  case None
  then show ?thesis .
next
  case (Some fr)
  from parse_FlowLogRecordV2(1,3) [OF Some] assms show ?thesis
    by (auto simp: IANAProtocolNum_of_def split: if_splits)
qed


lemma tag_record_chars:
  assumes "line \<in> set (file_lines body)"
    and "parse TagRecord_cls (split (lower (strip line)) (Latin1 (CHR '',''))) = Some r"
    and "c \<in> set (TagRecord.protocol r) \<union> set (tag r)"
  shows "c \<noteq> Latin1 (CHR 0x0A) \<and> lower_char c = c"
proof -
  let ?parts = "split (lower (strip line)) (Latin1 (CHR '',''))"
  from parse_TagRecord(1,3,4) [OF assms(2)]
  have "TagRecord.protocol r \<in> set ?parts" "tag r \<in> set ?parts"
    by (simp_all add: nth_mem)
  with assms(3) have c: "c \<in> set (lower (strip line))"
    using split_chars by blast
  have "Latin1 (CHR 0x0A) \<notin> set (lower (strip line))"
    by (rule lower_no_newline, rule strip_no_newline, rule file_lines_newline, rule assms(1))
  with c lower_unchanged [OF c] show ?thesis by auto
qed

section \<open>Facts about the two passes of main\<close>

lemma tag_loop_untagged: "untaggedCounter (tag_loop st items) = untaggedCounter st"
  by (induction st items rule: tag_loop.induct) simp_all

lemma tag_loop_stdout: "stdout (tag_loop st items) = stdout st @ emitted items"
  by (induction st items rule: tag_loop.induct) simp_all

lemma tag_loop_table:
  "tagMappings (tag_loop st items) =
   foldl (\<lambda>tm r. AList.update (tag_key r) (r, 0) tm) (tagMappings st) (yielded items)"
  by (induction st items rule: tag_loop.induct) (simp_all add: tag_key_def)

lemma foldl_update_distinct:
  "distinct (map fst tm) \<Longrightarrow>
   distinct (map fst (foldl (\<lambda>tm r. AList.update (tag_key r) (r, 0::int) tm) tm rs))"
  by (induction rs arbitrary: tm) (simp_all add: distinct_update)

lemma set_update_subset: "set (AList.update k v al) \<subseteq> insert (k, v) (set al)"
  by (induction al) auto

lemma foldl_update_entries:
  "e \<in> set (foldl (\<lambda>tm r. AList.update (tag_key r) (r, 0::int) tm) tm rs) \<Longrightarrow>
   e \<in> set tm \<or> (\<exists>r \<in> set rs. e = (tag_key r, (r, 0)))"
proof (induction rs arbitrary: tm)
  case Nil
  then show ?case by simp
next
  case (Cons a rs)
  from Cons.IH [OF Cons.prems [simplified]]
  show ?case using set_update_subset [of "tag_key a" "(a, 0)" tm] by auto
qed

lemma foldl_update_other:
  "k \<notin> tag_key ` set rs \<Longrightarrow>
   map_of (foldl (\<lambda>tm r. AList.update (tag_key r) (r, 0::int) tm) tm rs) k = map_of tm k"
  by (induction rs arbitrary: tm) (simp_all add: update_conv')

lemma foldl_update_last:
  "tag_key r \<notin> tag_key ` set post \<Longrightarrow>
   map_of (foldl (\<lambda>tm r. AList.update (tag_key r) (r, 0::int) tm) tm (pre @ [r] @ post))
     (tag_key r) = Some (r, 0)"
  by (simp add: foldl_update_other update_conv')

lemma distinct_keys_single:
  "distinct (map fst xs) \<Longrightarrow> map_of xs k = Some v \<Longrightarrow> filter (\<lambda>e. fst e = k) xs = [(k, v)]"
proof (induction xs)
  case Nil
  then show ?case by simp
next
  case (Cons a xs)
  show ?case
  proof (cases "fst a = k")
    case True
    with Cons.prems have "k \<notin> fst ` set xs" and "a = (k, v)"
      by (auto simp: prod_eq_iff)
    moreover from this have "filter (\<lambda>e. fst e = k) xs = []"
      by (auto simp: filter_empty_conv)
    ultimately show ?thesis by simp
  next
    case False
    with Cons show ?thesis by (cases a) auto
  qed
qed

lemma map_fst_map_entry [simp]: "map fst (AList.map_entry k f xs) = map fst xs"
  by (induction xs) auto

lemma sum_list_map_entry:
  "k \<in> fst ` set tm \<Longrightarrow>
   sum_list (counters (AList.map_entry k (\<lambda>(r, c). (r, c + 1)) tm)) = sum_list (counters tm) + 1"
  by (induction tm) (auto simp: counters_def split: prod.splits)

lemma map_entry_records:
  "map (\<lambda>e. (fst e, fst (snd e))) (AList.map_entry k (\<lambda>(r, c). (r, c + 1)) xs) =
   map (\<lambda>e. (fst e, fst (snd e))) xs"
  by (induction xs) (auto split: prod.splits)

lemma flow_step_keys [simp]: "map fst (tagMappings (flow_step st r)) = map fst (tagMappings st)"
  by (simp add: flow_step_def Let_def)

lemma flow_step_total:
  "sum_list (counters (tagMappings (flow_step st r))) + untaggedCounter (flow_step st r) =
   sum_list (counters (tagMappings st)) + untaggedCounter st + 1"
  by (simp add: flow_step_def Let_def sum_list_map_entry)

lemma flow_step_lookup:
  "map_of (tagMappings (flow_step st r)) k =
   (if flow_key r = k then map_option (\<lambda>(t, c). (t, c + 1)) (map_of (tagMappings st) k)
    else map_of (tagMappings st) k)"
proof -
  have mem: "((dstPort r, protocolStr_of r) \<in> fst ` set (tagMappings st)) =
             (map_of (tagMappings st) (dstPort r, protocolStr_of r) \<noteq> None)"
    by (simp add: map_of_eq_None_iff)
  show ?thesis
    by (auto simp: flow_step_def Let_def flow_key_def map_of_map_entry mem
             split: option.splits)
qed

lemma flow_step_untagged:
  "untaggedCounter (flow_step st r) =
   untaggedCounter st + (if flow_key r \<in> fst ` set (tagMappings st) then 0 else 1)"
  by (simp add: flow_step_def Let_def flow_key_def)

lemma flow_step_records:
  "map (\<lambda>e. (fst e, fst (snd e))) (tagMappings (flow_step st r)) =
   map (\<lambda>e. (fst e, fst (snd e))) (tagMappings st)"
  by (simp add: flow_step_def Let_def map_entry_records)

lemma flow_step_stdout_irrelevant:
  "tagMappings (flow_step (st\<lparr>stdout := x\<rparr>) r) = tagMappings (flow_step st r)"
  "untaggedCounter (flow_step (st\<lparr>stdout := x\<rparr>) r) = untaggedCounter (flow_step st r)"
  by (simp_all add: flow_step_def Let_def)

lemma flow_step_cong:
  assumes "tagMappings st = tagMappings st'" and "untaggedCounter st = untaggedCounter st'"
  shows "tagMappings (flow_step st r) = tagMappings (flow_step st' r)"
    and "untaggedCounter (flow_step st r) = untaggedCounter (flow_step st' r)"
  using assms by (simp_all add: flow_step_def Let_def)

lemma foldl_flow_step_cong:
  "tagMappings st = tagMappings st' \<Longrightarrow> untaggedCounter st = untaggedCounter st' \<Longrightarrow>
   tagMappings (foldl flow_step st rs) = tagMappings (foldl flow_step st' rs) \<and>
   untaggedCounter (foldl flow_step st rs) = untaggedCounter (foldl flow_step st' rs)"
proof (induction rs arbitrary: st st')
  case Nil
  then show ?case by simp
next
  case (Cons r rs)
  from Cons.IH [OF flow_step_cong [OF Cons.prems]] show ?case by simp
qed

lemma flow_loop_keys [simp]: "map fst (tagMappings (flow_loop st items)) = map fst (tagMappings st)"
  by (induction st items rule: flow_loop.induct) simp_all

lemma flow_loop_total:
  "sum_list (counters (tagMappings (flow_loop st items))) + untaggedCounter (flow_loop st items) =
   sum_list (counters (tagMappings st)) + untaggedCounter st + int (length (yielded items))"
  by (induction st items rule: flow_loop.induct) (simp_all add: flow_step_total)

lemma flow_loop_lookup:
  "map_of (tagMappings (flow_loop st items)) k =
   map_option (\<lambda>(t, c). (t, c + int (length (filter (\<lambda>r. flow_key r = k) (yielded items)))))
     (map_of (tagMappings st) k)"
proof (induction st items rule: flow_loop.induct)
  case (3 st flowRecord rest)
  show ?case
    by (cases "map_of (tagMappings st) k")
       (auto simp: 3 flow_step_lookup split: prod.splits)
qed (simp_all add: option.map_ident)

lemma flow_loop_untagged:
  "untaggedCounter (flow_loop st items) =
   untaggedCounter st +
   int (length (filter (\<lambda>r. flow_key r \<notin> fst ` set (tagMappings st)) (yielded items)))"
proof (induction st items rule: flow_loop.induct)
  case (3 st flowRecord rest)
  have "fst ` set (tagMappings (flow_step st flowRecord)) = fst ` set (tagMappings st)"
    by (metis flow_step_keys list.set_map)
  then show ?case by (simp add: 3 flow_step_untagged)
qed simp_all

lemma flow_loop_records:
  "map (\<lambda>e. (fst e, fst (snd e))) (tagMappings (flow_loop st items)) =
   map (\<lambda>e. (fst e, fst (snd e))) (tagMappings st)"
  by (induction st items rule: flow_loop.induct) (simp_all add: flow_step_records)

lemma flow_loop_yielded:
  "tagMappings (flow_loop st items) = tagMappings (foldl flow_step st (yielded items)) \<and>
   untaggedCounter (flow_loop st items) = untaggedCounter (foldl flow_step st (yielded items))"
proof (induction st items rule: flow_loop.induct)
  case (1 st)
  show ?case by simp
next
  case (2 st e rest)
  have "tagMappings (st\<lparr>stdout := stdout st @ [e]\<rparr>) = tagMappings st"
    and "untaggedCounter (st\<lparr>stdout := stdout st @ [e]\<rparr>) = untaggedCounter st"
    by simp_all
  from foldl_flow_step_cong [OF this] 2 show ?case by simp
next
  case (3 st flowRecord rest)
  then show ?case by simp
qed

lemma aggregate_by_yielded:
  assumes "fs flowlogsPath = Some body"
  shows "\<exists>st2. aggregate fs flowlogsPath st = Inr st2 \<and>
     tagMappings st2 = tagMappings (foldl flow_step st
        (List.map_filter (\<lambda>line. parse FlowLogRecordV2_cls (split (strip line) (Latin1 (CHR '',''))))
           (drop 1 (file_lines body)))) \<and>
     untaggedCounter st2 = untaggedCounter (foldl flow_step st
        (List.map_filter (\<lambda>line. parse FlowLogRecordV2_cls (split (strip line) (Latin1 (CHR '',''))))
           (drop 1 (file_lines body))))"
proof -
  from genRecord_yielded [of fs flowlogsPath body FlowLogRecordV2_cls strip] assms
  obtain items where
    "genRecord fs flowlogsPath FlowLogRecordV2_cls strip = Inr items"
    "yielded items =
       List.map_filter (\<lambda>line. parse FlowLogRecordV2_cls (split (strip line) (Latin1 (CHR '',''))))
         (drop 1 (file_lines body))"
    by blast
  then show ?thesis
    using flow_loop_yielded [of st items] by (simp add: aggregate_def)
qed

lemma build_table_initial:
  assumes "build_table fs tp = Inr st1"
  shows "distinct (map fst (tagMappings st1))"
    and "\<forall>e \<in> set (tagMappings st1). snd (snd e) = 0"
    and "untaggedCounter st1 = 0"
proof -
  from assms obtain items where st1: "st1 = tag_loop initial_state items"
    by (auto simp: build_table_def split: sum.splits)
  show "distinct (map fst (tagMappings st1))"
    by (simp add: st1 tag_loop_table foldl_update_distinct initial_state_def)
  show "\<forall>e \<in> set (tagMappings st1). snd (snd e) = 0"
    using foldl_update_entries [of _ "[]" "yielded items"]
    by (fastforce simp: st1 tag_loop_table initial_state_def)
  show "untaggedCounter st1 = 0"
    by (simp add: st1 tag_loop_untagged initial_state_def)
qed

lemma sum_list_counters_zero:
  "\<forall>e \<in> set tm. snd (snd e) = 0 \<Longrightarrow> sum_list (counters tm) = 0"
  by (induction tm) (simp_all add: counters_def)

lemma built_table_entries:
  assumes "build_table fs tagMappingsPath = Inr st1" and "e \<in> set (tagMappings st1)"
  shows "fst e = tag_key (fst (snd e)) \<and>
         (\<forall>c \<in> set (TagRecord.protocol (fst (snd e))) \<union> set (tag (fst (snd e))).
            c \<noteq> Latin1 (CHR 0x0A) \<and> lower_char c = c)"
proof -
  from assms(1) obtain items where
    items: "genRecord fs tagMappingsPath TagRecord_cls (\<lambda>line. lower (strip line)) = Inr items"
    and st1: "st1 = tag_loop initial_state items"
    by (auto simp: build_table_def split: sum.splits)
  from genRecord_Inr_readable [OF items] obtain body where body: "fs tagMappingsPath = Some body"
    by blast
  from genRecord_yielded [of fs tagMappingsPath body TagRecord_cls "\<lambda>line. lower (strip line)"]
    body items
  have y: "yielded items =
      List.map_filter (\<lambda>line. parse TagRecord_cls (split (lower (strip line)) (Latin1 (CHR '',''))))
        (drop 1 (file_lines body))"
    by simp
  from assms(2) foldl_update_entries [of e "[]" "yielded items"]
  obtain r where r: "r \<in> set (yielded items)" "e = (tag_key r, (r, 0))"
    by (auto simp: st1 tag_loop_table initial_state_def)
  from r(1) obtain line where line: "line \<in> set (drop 1 (file_lines body))"
    "parse TagRecord_cls (split (lower (strip line)) (Latin1 (CHR '',''))) = Some r"
    by (auto simp: y map_filter_def)
  from line(1) have "line \<in> set (file_lines body)"
    by (rule in_set_dropD)
  from tag_record_chars [OF this line(2)] r(2) show ?thesis by simp
qed

lemma final_table_entries:
  assumes "build_table fs tagMappingsPath = Inr st1"
    and "e \<in> set (tagMappings (flow_loop st1 items))"
  shows "fst e = tag_key (fst (snd e)) \<and>
         (\<forall>c \<in> set (TagRecord.protocol (fst (snd e))) \<union> set (tag (fst (snd e))).
            c \<noteq> Latin1 (CHR 0x0A) \<and> lower_char c = c)"
proof -
  from assms(2) have "(fst e, fst (snd e)) \<in>
      set (map (\<lambda>e. (fst e, fst (snd e))) (tagMappings (flow_loop st1 items)))"
    by (simp add: image_iff) blast
  then have "(fst e, fst (snd e)) \<in> set (map (\<lambda>e. (fst e, fst (snd e))) (tagMappings st1))"
    by (simp only: flow_loop_records)
  then obtain e1 where e1: "e1 \<in> set (tagMappings st1)" "fst e1 = fst e"
    "fst (snd e1) = fst (snd e)"
    by auto
  from built_table_entries [OF assms(1) e1(1)] e1(2,3) show ?thesis by simp
qed

lemma protocolStr_of_range: "range protocolStr_of = protocol_names"
proof
  show "range protocolStr_of \<subseteq> protocol_names"
    by (auto simp: protocolStr_of_cases protocol_names_def split: IANAProtocolNum.splits)
  have "\<And>p. protocolStr_of (undefined\<lparr>protocol := p\<rparr>) \<in> range protocolStr_of"
    by blast
  then have "\<And>p. (case p of ICMP \<Rightarrow> ustr ''icmp'' | IPv4 \<Rightarrow> ustr ''ipv4'' | TCP \<Rightarrow> ustr ''tcp''
        | UDP \<Rightarrow> ustr ''udp'' | IPv6 \<Rightarrow> ustr ''ipv6'') \<in> range protocolStr_of"
    by (simp add: protocolStr_of_cases)
  from this [of ICMP] this [of IPv4] this [of TCP] this [of UDP] this [of IPv6]
  show "protocol_names \<subseteq> range protocolStr_of"
    by (simp add: protocol_names_def)
qed

section \<open>Facts about the report\<close>

lemma remdups_drop_repeated: "t \<in> set zs \<Longrightarrow> remdups (ys @ t # zs) = remdups (ys @ zs)"
  by (induction ys) auto

lemma first_occurrences_repeated:
  "t \<in> set ks \<Longrightarrow> first_occurrences (ks @ t # rest) = first_occurrences (ks @ rest)"
  by (simp add: first_occurrences_def remdups_drop_repeated)

lemma first_occurrences_distinct: "distinct xs \<Longrightarrow> first_occurrences xs = xs"
  by (simp add: first_occurrences_def distinct_remdups_id)

lemma map_fst_map_default:
  "map fst (AList.map_default k v f xs) =
     (if k \<in> fst ` set xs then map fst xs else map fst xs @ [k])"
  by (induction xs) auto

lemma tagCounts_loop_keys:
  "distinct (map fst acc) \<Longrightarrow>
   map fst (tagCounts_loop acc tm) = first_occurrences (map fst acc @ tags_of tm)"
proof (induction acc tm rule: tagCounts_loop.induct)
  case (1 tagCounts)
  then show ?case by (simp add: tags_of_def first_occurrences_distinct)
next
  case (2 tagCounts port protocolStr tagRecord count rest)
  let ?acc = "AList.map_default (tag tagRecord) (0 + count) (\<lambda>n. n + count) tagCounts"
  have "distinct (map fst ?acc)"
    using "2.prems" by (rule distinct_map_default)
  from "2.IH" [OF this] show ?case
    by (auto simp: map_fst_map_default tags_of_def first_occurrences_repeated)
qed

lemma filter_tag_absent:
  "t \<notin> (\<lambda>e. tag (fst (snd e))) ` set tm \<Longrightarrow> filter (\<lambda>e. tag (fst (snd e)) = t) tm = []"
  by (auto simp: filter_empty_conv)

lemma tagCounts_loop_lookup:
  "map_of (tagCounts_loop acc tm) t =
     (if t \<in> set (tags_of tm)
      then Some ((case map_of acc t of None \<Rightarrow> 0 | Some n \<Rightarrow> n) + tag_total tm t)
      else map_of acc t)"
proof (induction acc tm rule: tagCounts_loop.induct)
  case (1 tagCounts)
  then show ?case by (simp add: tags_of_def)
next
  case (2 tagCounts port protocolStr tagRecord count rest)
  from "2.IH" have IH:
    "map_of (tagCounts_loop (AList.map_default (tag tagRecord) count (\<lambda>n. n + count) tagCounts)
        rest) t =
     (if t \<in> set (tags_of rest)
      then Some ((case map_of (AList.map_default (tag tagRecord) count (\<lambda>n. n + count) tagCounts) t
                  of None \<Rightarrow> 0 | Some n \<Rightarrow> n) + tag_total rest t)
      else map_of (AList.map_default (tag tagRecord) count (\<lambda>n. n + count) tagCounts) t)"
    by simp
  show ?case
    by (auto simp: IH map_of_map_default tags_of_def tag_total_def counters_def
             filter_tag_absent split: option.splits)
qed

lemma alist_by_keys:
  "distinct (map fst xs) \<Longrightarrow> (\<And>k. k \<in> fst ` set xs \<Longrightarrow> map_of xs k = Some (g k)) \<Longrightarrow>
   xs = map (\<lambda>k. (k, g k)) (map fst xs)"
proof (induction xs)
  case Nil
  then show ?case by simp
next
  case (Cons a xs)
  have "map_of xs k = Some (g k)" if "k \<in> fst ` set xs" for k
    using Cons.prems(2) [of k] Cons.prems(1) that by (auto split: if_splits)
  with Cons.IH Cons.prems(1) have "xs = map (\<lambda>k. (k, g k)) (map fst xs)"
    by simp
  moreover from Cons.prems(2) [of "fst a"] have "a = (fst a, g (fst a))"
    by (cases a) simp
  ultimately show ?case by (metis (no_types, lifting) list.simps(9))
qed

lemma tagCounts_loop_eq:
  "tagCounts_loop [] tm = map (\<lambda>t. (t, tag_total tm t)) (first_occurrences (tags_of tm))"
proof -
  have d: "distinct (map fst (tagCounts_loop [] tm))"
    by (simp add: tagCounts_loop_keys first_occurrences_def)
  have k: "map fst (tagCounts_loop [] tm) = first_occurrences (tags_of tm)"
    by (simp add: tagCounts_loop_keys)
  have "map_of (tagCounts_loop [] tm) t = Some (tag_total tm t)"
    if "t \<in> fst ` set (tagCounts_loop [] tm)" for t
  proof -
    from that have "t \<in> set (map fst (tagCounts_loop [] tm))" by simp
    then have "t \<in> set (tags_of tm)"
      by (simp only: k) (simp add: first_occurrences_def)
    then show ?thesis by (simp add: tagCounts_loop_lookup)
  qed
  from alist_by_keys [OF d this] show ?thesis by (simp only: k)
qed

lemma tag_line_digit: "isdigit (last (butlast (tag_line tc)))"
  by (cases tc) (simp add: tag_line_def newline_def butlast_append str_int_nonempty str_int_last)

lemma key_line_digit: "isdigit (last (butlast (key_line e)))"
proof -
  obtain port proto r c where "e = ((port, proto), (r, c))"
    by (metis surj_pair)
  then show ?thesis
    by (simp add: key_line_def newline_def butlast_append str_int_nonempty str_int_last)
qed

lemma untagged_line_digit: "isdigit (last (butlast (ustr ''Untagged,'' @ str_int u @ newline)))"
  by (simp add: newline_def butlast_append str_int_nonempty str_int_last)

lemma header_no_digit:
  "\<not> isdigit (last (butlast (ustr ''Tag,Count'' @ newline)))"
  "\<not> isdigit (last (butlast (ustr ''Port,Protocol,Count'' @ newline)))"
  by (simp_all add: newline_def isdigit_def ustr_def)

lemma report_header_once:
  "count_list (report_writes tm untagged) (ustr ''Tag,Count'' @ newline) = 1"
  "count_list (report_writes tm untagged) (ustr ''Port,Protocol,Count'' @ newline) = 1"
proof -
  have differ: "ustr ''Tag,Count'' @ newline \<noteq> ustr ''Port,Protocol,Count'' @ newline"
    by (simp add: newline_def ustr_def)
  have t: "h \<notin> set (map tag_line tc)" if "\<not> isdigit (last (butlast h))" for h tc
    using that tag_line_digit by auto
  have k: "h \<notin> set (map key_line tm)" if "\<not> isdigit (last (butlast h))" for h
    using that key_line_digit by auto
  have u: "h \<noteq> ustr ''Untagged,'' @ str_int untagged @ newline" if "\<not> isdigit (last (butlast h))"
    for h
    using that untagged_line_digit by auto
  show "count_list (report_writes tm untagged) (ustr ''Tag,Count'' @ newline) = 1"
    using t [OF header_no_digit(1)] k [OF header_no_digit(1)] u [OF header_no_digit(1)] differ
    by (simp add: report_writes_def count_list_0_iff del: set_map)
  show "count_list (report_writes tm untagged) (ustr ''Port,Protocol,Count'' @ newline) = 1"
    using t [OF header_no_digit(2)] k [OF header_no_digit(2)] u [OF header_no_digit(2)] differ
    by (simp add: report_writes_def count_list_0_iff del: set_map)
qed

lemma report_lines:
  assumes "\<And>e. e \<in> set tm \<Longrightarrow>
             Latin1 (CHR 0x0A) \<notin> set (snd (fst e)) \<and> Latin1 (CHR 0x0A) \<notin> set (tag (fst (snd e)))"
  shows "file_lines (concat (report_writes tm untagged)) = report_writes tm untagged"
proof (rule file_lines_concat)
  fix w
  assume "w \<in> set (report_writes tm untagged)"
  then consider "w = ustr ''Tag,Count'' @ newline" | "w = ustr ''Port,Protocol,Count'' @ newline"
    | "w = ustr ''Untagged,'' @ str_int untagged @ newline"
    | t where "t \<in> set (first_occurrences (tags_of tm))"
        "w = t @ ustr '','' @ str_int (tag_total tm t) @ newline"
    | e where "e \<in> set tm" "w = key_line e"
    by (auto simp: report_writes_def tagCounts_loop_eq tag_line_def)
  then show "\<exists>b. w = b @ [Latin1 (CHR 0x0A)] \<and> Latin1 (CHR 0x0A) \<notin> set b"
  proof cases
    case 1
    then show ?thesis by (simp add: newline_def ustr_def)
  next
    case 2
    then show ?thesis by (simp add: newline_def ustr_def)
  next
    case 3
    then have "w = (ustr ''Untagged,'' @ str_int untagged) @ [Latin1 (CHR 0x0A)]"
      by (simp add: newline_def ustr_def)
    moreover have "Latin1 (CHR 0x0A) \<notin> set (ustr ''Untagged,'' @ str_int untagged)"
      by (simp add: str_int_no_newline ustr_def)
    ultimately show ?thesis by blast
  next
    case 4
    from 4(1) have "t \<in> set (tags_of tm)"
      by (simp add: first_occurrences_def)
    with assms have "Latin1 (CHR 0x0A) \<notin> set t"
      by (auto simp: tags_of_def)
    then have "Latin1 (CHR 0x0A) \<notin> set (t @ ustr '','' @ str_int (tag_total tm t))"
      by (simp add: str_int_no_newline ustr_def)
    moreover from 4(2) have "w = (t @ ustr '','' @ str_int (tag_total tm t)) @ [Latin1 (CHR 0x0A)]"
      by (simp add: newline_def ustr_def)
    ultimately show ?thesis by blast
  next
    case 5
    obtain port proto r c where e: "e = ((port, proto), (r, c))"
      by (metis surj_pair)
    with assms [OF 5(1)] have "Latin1 (CHR 0x0A) \<notin> set proto"
      by simp
    then have "Latin1 (CHR 0x0A) \<notin> set (str_int port @ ustr '','' @ proto @ ustr '','' @ str_int c)"
      by (simp add: str_int_no_newline ustr_def)
    moreover from 5(2) e have "w = (str_int port @ ustr '','' @ proto @ ustr '','' @ str_int c) @
      [Latin1 (CHR 0x0A)]"
      by (simp add: key_line_def newline_def)
    ultimately show ?thesis by blast
  qed
qed

section \<open>The examples, evaluated\<close>

lemmas prim_eval = ustr_def isspace_def strip_def has_lower_def lower_char_def lower_def split_def
  isdigit_def digit_val_def digits_def int_isspace_def py_int_def py_str_def
  IANAProtocolNum_of_def Action_of_def LogStatus_of_def sum_bind_def Let_def
  TagRecord_construct_def TagRecord_cls_def FlowLogRecordV2_construct_def FlowLogRecordV2_cls_def
  newline_def char_eval

lemmas show_eval = ustr_def str_int_def str_nat.simps digit_char_def IANAProtocolNum_value_def
  newline_def char_eval

lemma example_fs_tags: "example_fs (ustr ''tags.csv'') = Some example_tags"
  by (simp add: example_fs_def)

lemma example_fs_flows: "example_fs (ustr ''flows.csv'') = Some example_flows"
  by (simp add: example_fs_def)

lemma example_tag_lines:
  "file_lines example_tags =
     [ustr ''dstport,protocol,tag'' @ newline, ustr ''25,tcp,email'' @ newline,
       ustr ''443,TCP,Web'' @ newline,
      ustr ''443,tcp,Secure'' @ newline, ustr ''25,sctp,Email'' @ newline]"
  by (simp add: example_tags_def file_lines_def newline_def ustr_def)

lemmas line_defs = flow_header_def line_443_def line_short_def line_99_def line_80_def
  line_25_def

lemma example_flow_lines:
  "file_lines example_flows = [flow_header, line_443, line_short, line_99, line_80, line_25]"
  by (simp add: example_flows_def line_defs file_lines_def newline_def ustr_def)

lemma example_flow_lines_named:
  "file_lines example_flows = flow_header # [line_443] @ [line_short] @ [line_99, line_80, line_25]"
  "file_lines example_flows = flow_header # [line_443, line_short] @ [line_99] @ [line_80, line_25]"
  by (simp_all add: example_flow_lines)

lemma example_flows_without_lines:
  "file_lines example_flows_without_short = flow_header # [line_443] @ [line_99, line_80, line_25]"
  "file_lines example_flows_without_99 = flow_header # [line_443, line_short] @ [line_80, line_25]"
  by (simp_all add: example_flows_without_short_def example_flows_without_99_def line_defs
        file_lines_def newline_def ustr_def)

lemma line_short_fields: "length (split (strip line_short) (Latin1 (CHR '',''))) = 13"
  by (simp add: line_short_def prim_eval)

lemma line_99_fields:
  "length (split (strip line_99) (Latin1 (CHR '',''))) = 14"
  "split (strip line_99) (Latin1 (CHR '','')) ! 7 = ustr ''99''"
  by (simp_all add: line_99_def prim_eval)

lemma short_flows_lines: "file_lines short_flows = [flow_header, line_short]"
  by (simp add: short_flows_def line_defs file_lines_def newline_def ustr_def)

lemma example_genRecord_tags:
  "genRecord example_fs (ustr ''tags.csv'') TagRecord_cls (\<lambda>line. lower (strip line)) =
     Inr example_tag_items"
  by (simp only: genRecord_readable [of example_fs "ustr ''tags.csv''" example_tags,
          OF example_fs_tags])
     (simp add: example_tag_lines example_tag_items_def prim_eval)

lemma example_genRecord_flows:
  "genRecord example_fs (ustr ''flows.csv'') FlowLogRecordV2_cls strip = Inr example_flow_items"
  by (simp only: genRecord_readable [of example_fs "ustr ''flows.csv''" example_flows,
          OF example_fs_flows])
     (simp add: example_flow_lines line_defs example_flow_items_def example_flow_443_def
        example_flow_80_def example_flow_25_def prim_eval)

lemma example_flow_keys:
  "flow_key example_flow_443 = (443, ustr ''tcp'')"
  "flow_key example_flow_80 = (80, ustr ''udp'')"
  "flow_key example_flow_25 = (25, ustr ''tcp'')"
  by (simp_all add: flow_key_def protocolStr_of_cases example_flow_443_def example_flow_80_def
        example_flow_25_def)

lemma example_build_table: "build_table example_fs (ustr ''tags.csv'') = Inr example_st1"
  by (simp add: build_table_def example_genRecord_tags example_tag_items_def initial_state_def
        example_st1_def example_table_def)

lemma example_aggregate: "aggregate example_fs (ustr ''flows.csv'') example_st1 = Inr example_st2"
  by (simp only: aggregate_def example_genRecord_flows sum.case)
     (simp add: example_flow_items_def
        example_flow_443_def example_flow_80_def example_flow_25_def
        example_st1_def example_table_def example_tag_items_def
        example_st2_def example_final_table_def
        flow_step_def protocolStr_of_cases Let_def show_eval)

lemma example_report_writes:
  "concat (report_writes example_final_table 1) = example_report"
  by (simp add: report_writes_def example_final_table_def example_report_def
        tag_line_def key_line_def show_eval)

lemma example_report_lines:
  "report_writes example_final_table 1 =
     [ustr ''Tag,Count'' @ newline, ustr ''email,1'' @ newline, ustr ''secure,1'' @ newline,
      ustr ''Port,Protocol,Count'' @ newline, ustr ''25,tcp,1'' @ newline, ustr ''443,tcp,1'' @
        newline,
      ustr ''25,sctp,0'' @ newline, ustr ''Untagged,1'' @ newline]"
  by (simp add: report_writes_def example_final_table_def tag_line_def key_line_def show_eval)

lemma example_main:
  "main example_fs (ustr ''flows.csv'') (ustr ''tags.csv'') (ustr ''out.csv'') =
     \<lparr>raised = None, out = stdout example_st2,
      files = example_fs(ustr ''out.csv'' \<mapsto> example_report),
      opened = [ustr ''tags.csv'', ustr ''flows.csv'', ustr ''out.csv'']\<rparr>"
proof -
  have t: "tagMappings example_st2 = example_final_table" and u: "untaggedCounter example_st2 = 1"
    by (simp_all add: example_st2_def)
  show ?thesis
    unfolding main_def
    by (simp only: example_build_table example_aggregate sum.case t u example_report_writes)
qed










section \<open>The claims\<close>

text \<open>
  C1. Round-trip counting. When both input files can be read, the two passes of
  \<open>main\<close> complete, and at the end of the aggregation pass the per-key counters of the
  tag table and the untagged counter add up to the number of flow records the parser
  yielded. Each flow record adds exactly 1 to that total.
\<close>

theorem round_trip_counting:
  assumes "fs tagMappingsPath = Some tagBody" and "fs flowlogsPath = Some flowBody"
  shows "(\<exists>st1 st2 flowItems.
           build_table fs tagMappingsPath = Inr st1 \<and>
           genRecord fs flowlogsPath FlowLogRecordV2_cls strip = Inr flowItems \<and>
           aggregate fs flowlogsPath st1 = Inr st2 \<and>
           sum_list (counters (tagMappings st2)) + untaggedCounter st2 =
             int (length (yielded flowItems))) \<and>
         sum_list (counters (tagMappings (flow_step st r))) + untaggedCounter (flow_step st r) =
           sum_list (counters (tagMappings st)) + untaggedCounter st + 1"
proof -
  obtain st1 where st1: "build_table fs tagMappingsPath = Inr st1"
    using assms(1) by (simp add: build_table_def genRecord_readable)
  obtain flowItems where fi: "genRecord fs flowlogsPath FlowLogRecordV2_cls strip = Inr flowItems"
    using assms(2) by (simp add: genRecord_readable)
  have st2: "aggregate fs flowlogsPath st1 = Inr (flow_loop st1 flowItems)"
    by (simp add: aggregate_def fi)
  have "sum_list (counters (tagMappings st1)) = 0"
    using build_table_initial(2) [OF st1] by (rule sum_list_counters_zero)
  then have "sum_list (counters (tagMappings (flow_loop st1 flowItems))) +
        untaggedCounter (flow_loop st1 flowItems) = int (length (yielded flowItems))"
    by (simp add: flow_loop_total build_table_initial(3) [OF st1])
  with st1 fi st2 show ?thesis by (simp add: flow_step_total)
qed

theorem round_trip_counting_witness:
  "example_fs (ustr ''tags.csv'') = Some example_tags \<and>
   example_fs (ustr ''flows.csv'') = Some example_flows \<and>
   build_table example_fs (ustr ''tags.csv'') = Inr example_st1 \<and>
   genRecord example_fs (ustr ''flows.csv'') FlowLogRecordV2_cls strip = Inr example_flow_items \<and>
   aggregate example_fs (ustr ''flows.csv'') example_st1 = Inr example_st2 \<and>
   sum_list (counters (tagMappings example_st2)) + untaggedCounter example_st2 =
     int (length (yielded example_flow_items)) \<and>
   length (yielded example_flow_items) = 3"
proof -
  from round_trip_counting [OF example_fs_tags example_fs_flows]
  obtain st1 st2 flowItems where
    a: "build_table example_fs (ustr ''tags.csv'') = Inr st1" and
    b: "genRecord example_fs (ustr ''flows.csv'') FlowLogRecordV2_cls strip = Inr flowItems" and
    c: "aggregate example_fs (ustr ''flows.csv'') st1 = Inr st2" and
    d: "sum_list (counters (tagMappings st2)) + untaggedCounter st2 =
      int (length (yielded flowItems))"
    by blast
  from a have st1: "st1 = example_st1"
    by (simp only: example_build_table sum.inject)
  from b have fi: "flowItems = example_flow_items"
    by (simp only: example_genRecord_flows sum.inject)
  from c have st2: "st2 = example_st2"
    by (simp only: st1 example_aggregate sum.inject)
  have len: "length (yielded example_flow_items) = 3"
    by (simp add: example_flow_items_def)
  from d have e: "sum_list (counters (tagMappings example_st2)) + untaggedCounter example_st2 =
     int (length (yielded example_flow_items))"
    by (simp only: st2 fi)
  show ?thesis
    by (intro conjI) (rule example_fs_tags example_fs_flows example_build_table
          example_genRecord_flows example_aggregate e len)+
qed

text \<open>
  C2. For a flow record \<open>r\<close> the aggregator's key \<open>flow_key r\<close> is the record's
  \<open>dstPort\<close> with the lowercase canonical name of its protocol; code \<open>6\<close> is TCP, whose
  name gives \<open>tcp\<close>. When the key is in the table, the step adds 1 to the counter stored
  at that key and changes neither the keys, nor any other entry, nor the untagged
  counter; otherwise it leaves the table alone and adds 1 to the untagged counter. In
  particular a tag mapping line whose protocol field reads \<open>tcp\<close> in any letter case
  and a flow line with protocol field \<open>6\<close> and the same port get the same key.
\<close>

theorem join_key_and_counting:
  "flow_key r = (dstPort r, lower (IANAProtocolNum_name (protocol r))) \<and>
   IANAProtocolNum_of (ustr ''6'') = Inr TCP \<and>
   lower (IANAProtocolNum_name TCP) = ustr ''tcp'' \<and>
   (flow_key r \<in> fst ` set (tagMappings st) \<longrightarrow>
      untaggedCounter (flow_step st r) = untaggedCounter st \<and>
      map fst (tagMappings (flow_step st r)) = map fst (tagMappings st) \<and>
      (\<forall>k. map_of (tagMappings (flow_step st r)) k =
            (if k = flow_key r
             then map_option (\<lambda>(t, c). (t, c + 1)) (map_of (tagMappings st) k)
             else map_of (tagMappings st) k))) \<and>
   (flow_key r \<notin> fst ` set (tagMappings st) \<longrightarrow>
      tagMappings (flow_step st r) = tagMappings st \<and>
      untaggedCounter (flow_step st r) = untaggedCounter st + 1) \<and>
   (parse TagRecord_cls (split (lower (strip tagLine)) (Latin1 (CHR '',''))) = Some tr \<longrightarrow>
    parse FlowLogRecordV2_cls (split (strip flowLine) (Latin1 (CHR '',''))) = Some fr \<longrightarrow>
    lower (split (strip tagLine) (Latin1 (CHR '','')) ! 1) = ustr ''tcp'' \<longrightarrow>
    split (strip flowLine) (Latin1 (CHR '','')) ! 7 = ustr ''6'' \<longrightarrow>
    dstPort fr = TagRecord.dstPort tr \<longrightarrow>
    flow_key fr = tag_key tr)"
proof (intro conjI impI)
  have name: "protocolStr_of x = lower (IANAProtocolNum_name (protocol x))" for x
    by (cases "protocol x")
       (simp_all add: protocolStr_of_cases IANAProtocolNum_name_def lower_def lower_char_def
          has_lower_def ustr_def char_eval)
  show "flow_key r = (dstPort r, lower (IANAProtocolNum_name (protocol r)))"
    by (simp add: flow_key_def name)
  show "IANAProtocolNum_of (ustr ''6'') = Inr TCP"
    by (simp add: IANAProtocolNum_of_def)
  show "lower (IANAProtocolNum_name TCP) = ustr ''tcp''"
    by (simp add: IANAProtocolNum_name_def lower_def lower_char_def has_lower_def ustr_def char_eval)
next
  assume "flow_key r \<in> fst ` set (tagMappings st)"
  then show "untaggedCounter (flow_step st r) = untaggedCounter st"
    by (simp add: flow_step_untagged)
  show "map fst (tagMappings (flow_step st r)) = map fst (tagMappings st)"
    by simp
  show "\<forall>k. map_of (tagMappings (flow_step st r)) k =
            (if k = flow_key r
             then map_option (\<lambda>(t, c). (t, c + 1)) (map_of (tagMappings st) k)
             else map_of (tagMappings st) k)"
    by (auto simp: flow_step_lookup)
next
  assume "flow_key r \<notin> fst ` set (tagMappings st)"
  then show "tagMappings (flow_step st r) = tagMappings st"
    by (simp add: flow_step_def Let_def flow_key_def)
next
  assume "flow_key r \<notin> fst ` set (tagMappings st)"
  then show "untaggedCounter (flow_step st r) = untaggedCounter st + 1"
    by (simp add: flow_step_untagged)
next
  assume tr: "parse TagRecord_cls (split (lower (strip tagLine)) (Latin1 (CHR '',''))) = Some tr"
    and fr: "parse FlowLogRecordV2_cls (split (strip flowLine) (Latin1 (CHR '',''))) = Some fr"
    and tcp: "lower (split (strip tagLine) (Latin1 (CHR '','')) ! 1) = ustr ''tcp''"
    and six: "split (strip flowLine) (Latin1 (CHR '','')) ! 7 = ustr ''6''"
    and port: "dstPort fr = TagRecord.dstPort tr"
  from parse_TagRecord(1) [OF tr] have "1 < length (split (strip tagLine) (Latin1 (CHR '','')))"
    by (simp add: split_lower)
  with parse_TagRecord(3) [OF tr] tcp have "TagRecord.protocol tr = ustr ''tcp''"
    by (simp add: split_lower)
  moreover from parse_FlowLogRecordV2(3) [OF fr] six have "protocol fr = TCP"
    by (simp add: IANAProtocolNum_of_def)
  ultimately show "flow_key fr = tag_key tr"
    by (simp add: flow_key_def tag_key_def protocolStr_of_cases port)
qed


theorem join_key_and_counting_witness:
  "flow_key example_flow_443 \<in> fst ` set (tagMappings example_st1) \<and>
   untaggedCounter (flow_step example_st1 example_flow_443) = untaggedCounter example_st1 \<and>
   map_of (tagMappings (flow_step example_st1 example_flow_443)) (443, ustr ''tcp'') =
     Some (\<lparr>TagRecord.dstPort = 443, protocol = ustr ''tcp'', tag = ustr ''secure''\<rparr>, 1) \<and>
   flow_key example_flow_80 \<notin> fst ` set (tagMappings example_st1) \<and>
   tagMappings (flow_step example_st1 example_flow_80) = tagMappings example_st1 \<and>
   untaggedCounter (flow_step example_st1 example_flow_80) = untaggedCounter example_st1 + 1 \<and>
   parse TagRecord_cls (split (lower (strip (ustr ''443,TCP,Web'' @ newline))) (Latin1 (CHR '',''))) =
     Some \<lparr>TagRecord.dstPort = 443, protocol = ustr ''tcp'', tag = ustr ''web''\<rparr> \<and>
   parse FlowLogRecordV2_cls
     (split (strip (ustr ''2,acct,eni-1,10.0.0.1,10.0.0.2,49153,443,6,25,20000,1620140761,1620140821,ACCEPT,OK''
                    @ newline)) (Latin1 (CHR '',''))) = Some example_flow_443 \<and>
   flow_key example_flow_443 =
     tag_key \<lparr>TagRecord.dstPort = 443, protocol = ustr ''tcp'', tag = ustr ''web''\<rparr>"
proof -
  let ?tagLine = "ustr ''443,TCP,Web'' @ newline"
  let ?flowLine =
    "ustr ''2,acct,eni-1,10.0.0.1,10.0.0.2,49153,443,6,25,20000,1620140761,1620140821,ACCEPT,OK''
     @ newline"
  let ?tr = "\<lparr>TagRecord.dstPort = 443, protocol = ustr ''tcp'', tag = ustr ''web''\<rparr>"
  have k443: "flow_key example_flow_443 = (443, ustr ''tcp'')"
    by (simp add: flow_key_def protocolStr_of_cases example_flow_443_def)
  have k80: "flow_key example_flow_80 = (80, ustr ''udp'')"
    by (simp add: flow_key_def protocolStr_of_cases example_flow_80_def)
  have tbl: "tagMappings example_st1 = example_table"
    by (simp add: example_st1_def)
  have present: "flow_key example_flow_443 \<in> fst ` set (tagMappings example_st1)"
    by (simp add: k443 tbl example_table_def)
  have absent: "flow_key example_flow_80 \<notin> fst ` set (tagMappings example_st1)"
    by (simp add: k80 tbl example_table_def)
  have ptag: "parse TagRecord_cls (split (lower (strip ?tagLine)) (Latin1 (CHR '',''))) = Some ?tr"
    by (simp add: parse_def prim_eval)
  have pflow: "parse FlowLogRecordV2_cls (split (strip ?flowLine) (Latin1 (CHR '',''))) =
      Some example_flow_443"
    by (simp add: parse_def example_flow_443_def prim_eval)
  have tcp: "lower (split (strip ?tagLine) (Latin1 (CHR '','')) ! 1) = ustr ''tcp''"
    by (simp add: prim_eval)
  have six: "split (strip ?flowLine) (Latin1 (CHR '','')) ! 7 = ustr ''6''"
    by (simp add: prim_eval)
  have port: "dstPort example_flow_443 = TagRecord.dstPort ?tr"
    by (simp add: example_flow_443_def)
  note hit = join_key_and_counting [of example_flow_443 example_st1 ?tagLine ?tr ?flowLine
      example_flow_443]
  note miss = join_key_and_counting [of example_flow_80 example_st1 ?tagLine ?tr ?flowLine
      example_flow_443]
  note hit4 = hit [THEN conjunct2, THEN conjunct2, THEN conjunct2, THEN conjunct1, THEN mp,
      OF present]
  note miss5 = miss [THEN conjunct2, THEN conjunct2, THEN conjunct2, THEN conjunct2,
      THEN conjunct1, THEN mp, OF absent]
  note same = hit [THEN conjunct2, THEN conjunct2, THEN conjunct2, THEN conjunct2,
      THEN conjunct2, THEN mp, THEN mp, THEN mp, THEN mp, THEN mp, OF ptag pflow tcp six port]
  from hit4 have
    "map_of (tagMappings (flow_step example_st1 example_flow_443)) (443, ustr ''tcp'') =
       map_option (\<lambda>(t, c). (t, c + 1)) (map_of (tagMappings example_st1) (443, ustr ''tcp''))"
    by (simp add: k443)
  then have count:
    "map_of (tagMappings (flow_step example_st1 example_flow_443)) (443, ustr ''tcp'') =
       Some (\<lparr>TagRecord.dstPort = 443, protocol = ustr ''tcp'', tag = ustr ''secure''\<rparr>, 1)"
    by (simp add: tbl example_table_def)
  show ?thesis
    apply (intro conjI)
            apply (rule present)
           apply (rule hit4 [THEN conjunct1])
          apply (rule count)
         apply (rule absent)
        apply (rule miss5 [THEN conjunct1])
       apply (rule miss5 [THEN conjunct2])
      apply (rule ptag)
     apply (rule pflow)
    apply (rule same)
    done
qed

text \<open>
  C3. A line whose field count differs from the number of expected fields is meant to
  add to the parser's skip count, to be reported by a warning and to be part of the
  total of the summary. The code does none of the three. On the flow log
  \<open>short_flows\<close>, whose only data line splits into 13 fields, the parser emits for that
  line one entry at level INFO and none at level WARNING, and its summary reports 0
  parsed, 0 skipped and 0 in total. Only the branch for a failed coercion logs a
  warning and increments \<open>skipped\<close>.
\<close>

theorem short_line_not_counted:
  "file_lines short_flows = [flow_header, line_short] \<and>
   length (split (strip line_short) (Latin1 (CHR '',''))) = 13 \<and>
   genRecord [ustr ''flows.csv'' \<mapsto> short_flows] (ustr ''flows.csv'') FlowLogRecordV2_cls strip =
     Inr [Emit (Logged INFO (CSV_Header (strip flow_header))),
          Emit (Logged INFO (Skipping_invalid_record (strip line_short))),
          Emit (Logged INFO (Completed_parsing (ustr ''FlowLogRecordV2'') 0 0 0))]"
  by (simp add: genRecord_def genFields_def short_flows_lines line_defs prim_eval)

text \<open>
  C4. Last write wins. Let the tag-mapping file yield, among its records, \<open>r1\<close> and
  later \<open>r2\<close> with the same (dstPort, protocol) key, \<open>r2\<close> being the last record with
  that key. Then the builder completes without error and adds nothing to the output of
  its own; the built table has exactly one entry at that key, holding \<open>r2\<close> with counter
  0, so \<open>r1\<close> is not retained when it differs from \<open>r2\<close>. After the aggregation pass
  that entry still is the only one at the key, still holds \<open>r2\<close>, and its counter is the
  number of flow records with that key.
\<close>

theorem last_write_wins:
  assumes "fs flowlogsPath = Some flowBody"
    and "genRecord fs tagMappingsPath TagRecord_cls (\<lambda>line. lower (strip line)) = Inr tagItems"
    and "yielded tagItems = pre @ [r1] @ mid @ [r2] @ post"
    and "tag_key r1 = tag_key r2"
    and "tag_key r2 \<notin> tag_key ` set post"
  shows "\<exists>st1 st2 flowItems.
           build_table fs tagMappingsPath = Inr st1 \<and>
           stdout st1 = emitted tagItems \<and>
           filter (\<lambda>e. fst e = tag_key r2) (tagMappings st1) = [(tag_key r2, (r2, 0))] \<and>
           genRecord fs flowlogsPath FlowLogRecordV2_cls strip = Inr flowItems \<and>
           aggregate fs flowlogsPath st1 = Inr st2 \<and>
           filter (\<lambda>e. fst e = tag_key r2) (tagMappings st2) =
             [(tag_key r2,
               (r2, int (length (filter (\<lambda>f. flow_key f = tag_key r2) (yielded flowItems)))))]"
proof -
  define st1 where "st1 = tag_loop initial_state tagItems"
  have st1: "build_table fs tagMappingsPath = Inr st1"
    by (simp add: build_table_def assms(2) st1_def)
  obtain flowItems where fi: "genRecord fs flowlogsPath FlowLogRecordV2_cls strip = Inr flowItems"
    using assms(1) by (simp add: genRecord_readable)
  define st2 where "st2 = flow_loop st1 flowItems"
  have st2: "aggregate fs flowlogsPath st1 = Inr st2"
    by (simp add: aggregate_def fi st2_def)
  have out: "stdout st1 = emitted tagItems"
    by (simp add: st1_def tag_loop_stdout initial_state_def)
  have "yielded tagItems = (pre @ [r1] @ mid) @ [r2] @ post"
    by (simp add: assms(3))
  then have look1: "map_of (tagMappings st1) (tag_key r2) = Some (r2, 0)"
    using foldl_update_last [OF assms(5), of "[]" "pre @ [r1] @ mid"]
    by (simp add: st1_def tag_loop_table initial_state_def)
  have dist1: "distinct (map fst (tagMappings st1))"
    by (rule build_table_initial(1) [OF st1])
  have one1: "filter (\<lambda>e. fst e = tag_key r2) (tagMappings st1) = [(tag_key r2, (r2, 0))]"
    by (rule distinct_keys_single [OF dist1 look1])
  have look2: "map_of (tagMappings st2) (tag_key r2) =
      Some (r2, int (length (filter (\<lambda>f. flow_key f = tag_key r2) (yielded flowItems))))"
    by (simp add: st2_def flow_loop_lookup look1)
  have dist2: "distinct (map fst (tagMappings st2))"
    by (simp add: st2_def dist1)
  have one2: "filter (\<lambda>e. fst e = tag_key r2) (tagMappings st2) =
      [(tag_key r2,
        (r2, int (length (filter (\<lambda>f. flow_key f = tag_key r2) (yielded flowItems)))))]"
    by (rule distinct_keys_single [OF dist2 look2])
  from st1 out one1 fi st2 one2 show ?thesis by blast
qed


theorem last_write_wins_witness:
  "example_fs (ustr ''flows.csv'') = Some example_flows \<and>
   genRecord example_fs (ustr ''tags.csv'') TagRecord_cls (\<lambda>line. lower (strip line)) =
     Inr example_tag_items \<and>
   yielded example_tag_items =
     [\<lparr>TagRecord.dstPort = 25, protocol = ustr ''tcp'', tag = ustr ''email''\<rparr>] @
     [\<lparr>TagRecord.dstPort = 443, protocol = ustr ''tcp'', tag = ustr ''web''\<rparr>] @ [] @
     [\<lparr>TagRecord.dstPort = 443, protocol = ustr ''tcp'', tag = ustr ''secure''\<rparr>] @
     [\<lparr>TagRecord.dstPort = 25, protocol = ustr ''sctp'', tag = ustr ''email''\<rparr>] \<and>
   tag_key \<lparr>TagRecord.dstPort = 443, protocol = ustr ''tcp'', tag = ustr ''web''\<rparr> =
     tag_key \<lparr>TagRecord.dstPort = 443, protocol = ustr ''tcp'', tag = ustr ''secure''\<rparr> \<and>
   tag_key \<lparr>TagRecord.dstPort = 443, protocol = ustr ''tcp'', tag = ustr ''secure''\<rparr> \<notin>
     tag_key ` set [\<lparr>TagRecord.dstPort = 25, protocol = ustr ''sctp'', tag = ustr ''email''\<rparr>] \<and>
   build_table example_fs (ustr ''tags.csv'') = Inr example_st1 \<and>
   filter (\<lambda>e. fst e = (443, ustr ''tcp'')) (tagMappings example_st1) =
     [((443, ustr ''tcp''),
       (\<lparr>TagRecord.dstPort = 443, protocol = ustr ''tcp'', tag = ustr ''secure''\<rparr>, 0))] \<and>
   aggregate example_fs (ustr ''flows.csv'') example_st1 = Inr example_st2 \<and>
   filter (\<lambda>e. fst e = (443, ustr ''tcp'')) (tagMappings example_st2) =
     [((443, ustr ''tcp''),
       (\<lparr>TagRecord.dstPort = 443, protocol = ustr ''tcp'', tag = ustr ''secure''\<rparr>, 1))]"
proof -
  let ?r25 = "\<lparr>TagRecord.dstPort = 25, protocol = ustr ''tcp'', tag = ustr ''email''\<rparr>"
  let ?web = "\<lparr>TagRecord.dstPort = 443, protocol = ustr ''tcp'', tag = ustr ''web''\<rparr>"
  let ?secure = "\<lparr>TagRecord.dstPort = 443, protocol = ustr ''tcp'', tag = ustr ''secure''\<rparr>"
  let ?sctp = "\<lparr>TagRecord.dstPort = 25, protocol = ustr ''sctp'', tag = ustr ''email''\<rparr>"
  have y: "yielded example_tag_items = [?r25] @ [?web] @ [] @ [?secure] @ [?sctp]"
    by (simp add: example_tag_items_def)
  have same: "tag_key ?web = tag_key ?secure"
    by (simp add: tag_key_def)
  have last: "tag_key ?secure \<notin> tag_key ` set [?sctp]"
    by (simp add: tag_key_def)
  have key: "tag_key ?secure = (443, ustr ''tcp'')"
    by (simp add: tag_key_def)
  from last_write_wins [OF example_fs_flows example_genRecord_tags y same last]
  obtain st1 st2 flowItems where
    a: "build_table example_fs (ustr ''tags.csv'') = Inr st1" and
    b: "filter (\<lambda>e. fst e = tag_key ?secure) (tagMappings st1) = [(tag_key ?secure, (?secure, 0))]"
      and
    c: "genRecord example_fs (ustr ''flows.csv'') FlowLogRecordV2_cls strip = Inr flowItems" and
    d: "aggregate example_fs (ustr ''flows.csv'') st1 = Inr st2" and
    e: "filter (\<lambda>e. fst e = tag_key ?secure) (tagMappings st2) =
          [(tag_key ?secure,
            (?secure, int (length (filter (\<lambda>f. flow_key f = tag_key ?secure) (yielded flowItems)))))]"
    by (elim exE conjE)
  from a have st1: "st1 = example_st1"
    by (simp only: example_build_table sum.inject)
  from c have fi: "flowItems = example_flow_items"
    by (simp only: example_genRecord_flows sum.inject)
  from d have st2: "st2 = example_st2"
    by (simp only: st1 example_aggregate sum.inject)
  have n: "int (length (filter (\<lambda>f. flow_key f = (443, ustr ''tcp''))
                 (yielded example_flow_items))) = 1"
    by (simp add: example_flow_items_def example_flow_keys)
  from b have b': "filter (\<lambda>e. fst e = (443, ustr ''tcp'')) (tagMappings example_st1) =
      [((443, ustr ''tcp''), (?secure, 0))]"
    by (simp only: st1 key)
  from e have e': "filter (\<lambda>e. fst e = (443, ustr ''tcp'')) (tagMappings example_st2) =
      [((443, ustr ''tcp''), (?secure, 1))]"
    by (simp only: st2 fi key n)
  show ?thesis
    apply (intro conjI)
            apply (rule example_fs_flows)
           apply (rule example_genRecord_tags)
          apply (rule y)
         apply (rule same)
        apply (rule last)
       apply (rule example_build_table)
      apply (rule b')
     apply (rule example_aggregate)
    apply (rule e')
    done
qed

text \<open>
  C5. The report for a tag table \<open>tm\<close> and an untagged counter consists of, in this
  order: the line \<open>Tag,Count\<close>; for each distinct tag of the table, in order of first
  occurrence, one line with the tag and the sum of the counters of all entries that
  carry it; the line \<open>Port,Protocol,Count\<close>; one line per entry of the table with its
  port, protocol and counter; and last the line \<open>Untagged,\<close> with the untagged
  counter. Each of the two headers occurs exactly once. When both inputs can be read,
  \<open>main\<close> completes and the lines of the file it writes are exactly these lines for
  the final table and counter.
\<close>

theorem report_format:
  assumes "fs tagMappingsPath = Some tagBody" and "fs flowlogsPath = Some flowBody"
  shows
    "report_writes tm untagged =
       [ustr ''Tag,Count'' @ newline] @
       map (\<lambda>t. t @ ustr '','' @ str_int (tag_total tm t) @ newline)
         (first_occurrences (tags_of tm)) @
       [ustr ''Port,Protocol,Count'' @ newline] @
       map (\<lambda>e. str_int (fst (fst e)) @ ustr '','' @ snd (fst e) @ ustr '','' @
                 str_int (snd (snd e)) @ newline) tm @
       [ustr ''Untagged,'' @ str_int untagged @ newline] \<and>
     count_list (report_writes tm untagged) (ustr ''Tag,Count'' @ newline) = 1 \<and>
     count_list (report_writes tm untagged) (ustr ''Port,Protocol,Count'' @ newline) = 1 \<and>
     (\<exists>st1 st2 report.
        build_table fs tagMappingsPath = Inr st1 \<and>
        aggregate fs flowlogsPath st1 = Inr st2 \<and>
        raised (main fs flowlogsPath tagMappingsPath outputPath) = None \<and>
        files (main fs flowlogsPath tagMappingsPath outputPath) outputPath = Some report \<and>
        file_lines report = report_writes (tagMappings st2) (untaggedCounter st2))"
proof -
  have key: "key_line = (\<lambda>e. str_int (fst (fst e)) @ ustr '','' @ snd (fst e) @ ustr '','' @
      str_int (snd (snd e)) @ newline)"
    by (auto simp: key_line_def fun_eq_iff)
  have shape: "report_writes tm untagged =
       [ustr ''Tag,Count'' @ newline] @
       map (\<lambda>t. t @ ustr '','' @ str_int (tag_total tm t) @ newline)
         (first_occurrences (tags_of tm)) @
       [ustr ''Port,Protocol,Count'' @ newline] @
       map (\<lambda>e. str_int (fst (fst e)) @ ustr '','' @ snd (fst e) @ ustr '','' @
                 str_int (snd (snd e)) @ newline) tm @
       [ustr ''Untagged,'' @ str_int untagged @ newline]"
    by (simp add: report_writes_def tagCounts_loop_eq tag_line_def comp_def key)
  obtain st1 where st1: "build_table fs tagMappingsPath = Inr st1"
    using assms(1) by (simp add: build_table_def genRecord_readable)
  obtain flowItems where fi: "genRecord fs flowlogsPath FlowLogRecordV2_cls strip = Inr flowItems"
    using assms(2) by (simp add: genRecord_readable)
  define st2 where "st2 = flow_loop st1 flowItems"
  have st2: "aggregate fs flowlogsPath st1 = Inr st2"
    by (simp add: aggregate_def fi st2_def)
  define report where "report = concat (report_writes (tagMappings st2) (untaggedCounter st2))"
  have m: "raised (main fs flowlogsPath tagMappingsPath outputPath) = None"
    "files (main fs flowlogsPath tagMappingsPath outputPath) outputPath = Some report"
    by (simp_all add: main_def st1 st2 report_def)
  have clean: "Latin1 (CHR 0x0A) \<notin> set (snd (fst e)) \<and> Latin1 (CHR 0x0A) \<notin> set (tag (fst (snd e)))"
    if "e \<in> set (tagMappings st2)" for e
    using final_table_entries [OF st1 that [unfolded st2_def]]
    by (auto simp: tag_key_def)
  have "file_lines report = report_writes (tagMappings st2) (untaggedCounter st2)"
    unfolding report_def by (rule report_lines) (rule clean)
  with st1 st2 m shape report_header_once [of tm untagged] show ?thesis
    by blast
qed


theorem report_format_witness:
  "example_fs (ustr ''tags.csv'') = Some example_tags \<and>
   example_fs (ustr ''flows.csv'') = Some example_flows \<and>
   build_table example_fs (ustr ''tags.csv'') = Inr example_st1 \<and>
   aggregate example_fs (ustr ''flows.csv'') example_st1 = Inr example_st2 \<and>
   raised (main example_fs (ustr ''flows.csv'') (ustr ''tags.csv'') (ustr ''out.csv'')) = None \<and>
   files (main example_fs (ustr ''flows.csv'') (ustr ''tags.csv'') (ustr ''out.csv''))
     (ustr ''out.csv'') =
     Some example_report \<and>
   file_lines example_report =
     [ustr ''Tag,Count'' @ newline, ustr ''email,1'' @ newline, ustr ''secure,1'' @ newline,
      ustr ''Port,Protocol,Count'' @ newline, ustr ''25,tcp,1'' @ newline, ustr ''443,tcp,1'' @
        newline,
      ustr ''25,sctp,0'' @ newline, ustr ''Untagged,1'' @ newline] \<and>
   first_occurrences (tags_of example_final_table) = [ustr ''email'', ustr ''secure''] \<and>
   tag_total example_final_table (ustr ''email'') = 1 \<and>
   count_list (report_writes example_final_table 1) (ustr ''Tag,Count'' @ newline) = 1 \<and>
   count_list (report_writes example_final_table 1) (ustr ''Port,Protocol,Count'' @ newline) = 1"
proof -
  note T = report_format [OF example_fs_tags example_fs_flows, of example_final_table 1
      "ustr ''out.csv''"]
  from T obtain st1 st2 report where
    a: "build_table example_fs (ustr ''tags.csv'') = Inr st1" and
    b: "aggregate example_fs (ustr ''flows.csv'') st1 = Inr st2" and
    c: "raised (main example_fs (ustr ''flows.csv'') (ustr ''tags.csv'') (ustr ''out.csv'')) = None"
      and
    d: "files (main example_fs (ustr ''flows.csv'') (ustr ''tags.csv'') (ustr ''out.csv''))
      (ustr ''out.csv'') = Some report" and
    e: "file_lines report = report_writes (tagMappings st2) (untaggedCounter st2)"
    by (elim exE conjE)
  from a have st1: "st1 = example_st1"
    by (simp only: example_build_table sum.inject)
  from b have st2: "st2 = example_st2"
    by (simp only: st1 example_aggregate sum.inject)
  have tbl: "tagMappings example_st2 = example_final_table"
    and unt: "untaggedCounter example_st2 = 1"
    by (simp_all add: example_st2_def)
  have f: "files (main example_fs (ustr ''flows.csv'') (ustr ''tags.csv'') (ustr ''out.csv''))
    (ustr ''out.csv'') =
      Some example_report"
    by (simp add: example_main)
  with d have rep: "report = example_report"
    by simp
  from e have lines: "file_lines example_report =
     [ustr ''Tag,Count'' @ newline, ustr ''email,1'' @ newline, ustr ''secure,1'' @ newline,
      ustr ''Port,Protocol,Count'' @ newline, ustr ''25,tcp,1'' @ newline, ustr ''443,tcp,1'' @
        newline,
      ustr ''25,sctp,0'' @ newline, ustr ''Untagged,1'' @ newline]"
    by (simp only: rep st2 tbl unt example_report_lines)
  have tags: "first_occurrences (tags_of example_final_table) = [ustr ''email'', ustr ''secure'']"
    by (simp add: first_occurrences_def tags_of_def example_final_table_def)
  have total: "tag_total example_final_table (ustr ''email'') = 1"
    by (simp add: tag_total_def counters_def example_final_table_def)
  show ?thesis
    apply (intro conjI)
              apply (rule example_fs_tags)
             apply (rule example_fs_flows)
            apply (rule example_build_table)
           apply (rule example_aggregate)
          apply (rule c)
         apply (rule f)
        apply (rule lines)
       apply (rule tags)
      apply (rule total)
     apply (rule T [THEN conjunct2, THEN conjunct1])
    apply (rule T [THEN conjunct2, THEN conjunct2, THEN conjunct1])
    done
qed

text \<open>
  C6. Skip semantics. Take a flow log with a data line \<open>l\<close> that splits into 13 fields,
  or into 14 fields of which the protocol field is none of the declared values \<open>1\<close>,
  \<open>4\<close>, \<open>6\<close>, \<open>17\<close>, \<open>41\<close>. The parser yields no record for \<open>l\<close>, and the
  aggregation pass over the whole log, which goes on to the lines after \<open>l\<close>, ends with
  the same tag table and the same untagged counter as the pass over the log without \<open>l\<close>.
\<close>

theorem skip_semantics:
  assumes "fs flowlogsPath = Some body" and "file_lines body = header # pre @ [l] @ post"
    and "fs' flowlogsPath = Some body'" and "file_lines body' = header # pre @ post"
    and "length (split (strip l) (Latin1 (CHR '',''))) = 13 \<or>
         (length (split (strip l) (Latin1 (CHR '',''))) = 14 \<and>
          split (strip l) (Latin1 (CHR '','')) ! 7 \<notin> {ustr ''1'', ustr ''4'', ustr ''6'',
            ustr ''17'', ustr ''41''})"
  shows "parse FlowLogRecordV2_cls (split (strip l) (Latin1 (CHR '',''))) = None \<and>
         (\<exists>st2 st2'.
            aggregate fs flowlogsPath st = Inr st2 \<and>
            aggregate fs' flowlogsPath st = Inr st2' \<and>
            tagMappings st2 = tagMappings st2' \<and>
            untaggedCounter st2 = untaggedCounter st2')"
proof -
  let ?p = "\<lambda>line. parse FlowLogRecordV2_cls (split (strip line) (Latin1 (CHR '','')))"
  from assms(5) have none: "?p l = None"
    by (intro parse_FlowLogRecordV2_skipped) auto
  have same: "List.map_filter ?p (drop 1 (file_lines body)) =
              List.map_filter ?p (drop 1 (file_lines body'))"
    by (simp add: assms(2,4) map_filter_def none)
  from aggregate_by_yielded [of fs flowlogsPath body st] assms(1)
  obtain st2 where st2: "aggregate fs flowlogsPath st = Inr st2"
    "tagMappings st2 = tagMappings (foldl flow_step st (List.map_filter ?p (drop 1 (file_lines body))))"
    "untaggedCounter st2 =
       untaggedCounter (foldl flow_step st (List.map_filter ?p (drop 1 (file_lines body))))"
    by blast
  from aggregate_by_yielded [of fs' flowlogsPath body' st] assms(3)
  obtain st2' where st2': "aggregate fs' flowlogsPath st = Inr st2'"
    "tagMappings st2' = tagMappings (foldl flow_step st (List.map_filter ?p (drop 1 (file_lines body'))))"
    "untaggedCounter st2' =
       untaggedCounter (foldl flow_step st (List.map_filter ?p (drop 1 (file_lines body'))))"
    by blast
  from st2 st2' have "tagMappings st2 = tagMappings st2'" "untaggedCounter st2 = untaggedCounter st2'"
    by (simp_all only: same)
  with st2(1) st2'(1) none show ?thesis by blast
qed


theorem skip_semantics_witness:
  "example_fs (ustr ''flows.csv'') = Some example_flows \<and>
   file_lines example_flows =
     flow_header # [line_443] @ [line_short] @ [line_99, line_80, line_25] \<and>
   [ustr ''flows.csv'' \<mapsto> example_flows_without_short] (ustr ''flows.csv'') =
     Some example_flows_without_short \<and>
   file_lines example_flows_without_short =
     flow_header # [line_443] @ [line_99, line_80, line_25] \<and>
   length (split (strip line_short) (Latin1 (CHR '',''))) = 13 \<and>
   parse FlowLogRecordV2_cls (split (strip line_short) (Latin1 (CHR '',''))) = None \<and>
   aggregate example_fs (ustr ''flows.csv'') example_st1 = Inr example_st2 \<and>
   (\<exists>st2'. aggregate [ustr ''flows.csv'' \<mapsto> example_flows_without_short] (ustr ''flows.csv'') example_st1 =
             Inr st2' \<and>
           tagMappings st2' = example_final_table \<and> untaggedCounter st2' = 1) \<and>
   file_lines example_flows =
     flow_header # [line_443, line_short] @ [line_99] @ [line_80, line_25] \<and>
   [ustr ''flows.csv'' \<mapsto> example_flows_without_99] (ustr ''flows.csv'') =
     Some example_flows_without_99 \<and>
   file_lines example_flows_without_99 =
     flow_header # [line_443, line_short] @ [line_80, line_25] \<and>
   length (split (strip line_99) (Latin1 (CHR '',''))) = 14 \<and>
   split (strip line_99) (Latin1 (CHR '','')) ! 7 = ustr ''99'' \<and>
   ustr ''99'' \<notin> {ustr ''1'', ustr ''4'', ustr ''6'', ustr ''17'', ustr ''41''} \<and>
   parse FlowLogRecordV2_cls (split (strip line_99) (Latin1 (CHR '',''))) = None \<and>
   (\<exists>st2'. aggregate [ustr ''flows.csv'' \<mapsto> example_flows_without_99] (ustr ''flows.csv'') example_st1 =
             Inr st2' \<and>
           tagMappings st2' = example_final_table \<and> untaggedCounter st2' = 1)"
proof -
  let ?fsa = "[ustr ''flows.csv'' \<mapsto> example_flows_without_short]"
  let ?fsb = "[ustr ''flows.csv'' \<mapsto> example_flows_without_99]"
  have fa: "?fsa (ustr ''flows.csv'') = Some example_flows_without_short"
    by simp
  have fb: "?fsb (ustr ''flows.csv'') = Some example_flows_without_99"
    by simp
  have tbl: "tagMappings example_st2 = example_final_table"
    and unt: "untaggedCounter example_st2 = 1"
    by (simp_all add: example_st2_def)
  have out: "ustr ''99'' \<notin> {ustr ''1'', ustr ''4'', ustr ''6'', ustr ''17'', ustr ''41''}"
    by simp
  have ha: "length (split (strip line_short) (Latin1 (CHR '',''))) = 13 \<or>
         (length (split (strip line_short) (Latin1 (CHR '',''))) = 14 \<and>
          split (strip line_short) (Latin1 (CHR '','')) ! 7 \<notin> {ustr ''1'', ustr ''4'', ustr ''6'',
            ustr ''17'', ustr ''41''})"
    by (rule disjI1) (rule line_short_fields)
  have hb: "length (split (strip line_99) (Latin1 (CHR '',''))) = 13 \<or>
         (length (split (strip line_99) (Latin1 (CHR '',''))) = 14 \<and>
          split (strip line_99) (Latin1 (CHR '','')) ! 7 \<notin> {ustr ''1'', ustr ''4'', ustr ''6'',
            ustr ''17'', ustr ''41''})"
    by (rule disjI2) (simp only: line_99_fields out simp_thms)
  note A = skip_semantics [of example_fs "ustr ''flows.csv''" example_flows flow_header "[line_443]"
      line_short "[line_99, line_80, line_25]" ?fsa example_flows_without_short example_st1,
      OF example_fs_flows example_flow_lines_named(1) fa example_flows_without_lines(1) ha]
  note B = skip_semantics [of example_fs "ustr ''flows.csv''" example_flows flow_header
      "[line_443, line_short]" line_99 "[line_80, line_25]" ?fsb example_flows_without_99
      example_st1,
      OF example_fs_flows example_flow_lines_named(2) fb example_flows_without_lines(2) hb]
  from A [THEN conjunct2] obtain st2 st2a where
    a1: "aggregate example_fs (ustr ''flows.csv'') example_st1 = Inr st2" and
    a2: "aggregate ?fsa (ustr ''flows.csv'') example_st1 = Inr st2a" and
    a3: "tagMappings st2 = tagMappings st2a" and
    a4: "untaggedCounter st2 = untaggedCounter st2a"
    by (elim exE conjE)
  from a1 have sa: "st2 = example_st2"
    by (simp only: example_aggregate sum.inject)
  from a3 a4 have "tagMappings st2a = example_final_table" "untaggedCounter st2a = 1"
    by (simp_all only: sa tbl unt)
  with a2 have ea: "\<exists>st2'. aggregate ?fsa (ustr ''flows.csv'') example_st1 = Inr st2' \<and>
      tagMappings st2' = example_final_table \<and> untaggedCounter st2' = 1"
    by (intro exI conjI)
  from B [THEN conjunct2] obtain st3 st2b where
    b1: "aggregate example_fs (ustr ''flows.csv'') example_st1 = Inr st3" and
    b2: "aggregate ?fsb (ustr ''flows.csv'') example_st1 = Inr st2b" and
    b3: "tagMappings st3 = tagMappings st2b" and
    b4: "untaggedCounter st3 = untaggedCounter st2b"
    by (elim exE conjE)
  from b1 have sb: "st3 = example_st2"
    by (simp only: example_aggregate sum.inject)
  from b3 b4 have "tagMappings st2b = example_final_table" "untaggedCounter st2b = 1"
    by (simp_all only: sb tbl unt)
  with b2 have eb: "\<exists>st2'. aggregate ?fsb (ustr ''flows.csv'') example_st1 = Inr st2' \<and>
      tagMappings st2' = example_final_table \<and> untaggedCounter st2' = 1"
    by (intro exI conjI)
  show ?thesis
    apply (intro conjI)
                   apply (rule example_fs_flows)
                  apply (rule example_flow_lines_named(1))
                 apply (rule fa)
                apply (rule example_flows_without_lines(1))
               apply (rule line_short_fields)
              apply (rule A [THEN conjunct1])
             apply (rule example_aggregate)
            apply (rule ea)
           apply (rule example_flow_lines_named(2))
          apply (rule fb)
         apply (rule example_flows_without_lines(2))
        apply (rule line_99_fields(1))
       apply (rule line_99_fields(2))
      apply (rule out)
     apply (rule B [THEN conjunct1])
    apply (rule eb)
    done
qed

text \<open>
  C7. Empty input. When the tag-mapping file has a header line and nothing else and
  the flow log can be read, the built table has no entry, the aggregation pass leaves
  it empty and counts every yielded flow record as untagged, and \<open>main\<close> writes the
  line \<open>Tag,Count\<close>, the line \<open>Port,Protocol,Count\<close> and the line \<open>Untagged,N\<close>, where
  \<open>N\<close> is the number of flow records the parser yielded, and nothing else.
\<close>

theorem empty_tag_mapping:
  assumes "fs tagMappingsPath = Some tagBody" and "file_lines tagBody = [header]"
    and "fs flowlogsPath = Some flowBody"
  shows "\<exists>st1 st2 flowItems.
           build_table fs tagMappingsPath = Inr st1 \<and>
           tagMappings st1 = [] \<and>
           genRecord fs flowlogsPath FlowLogRecordV2_cls strip = Inr flowItems \<and>
           aggregate fs flowlogsPath st1 = Inr st2 \<and>
           tagMappings st2 = [] \<and>
           untaggedCounter st2 = int (length (yielded flowItems)) \<and>
           raised (main fs flowlogsPath tagMappingsPath outputPath) = None \<and>
           files (main fs flowlogsPath tagMappingsPath outputPath) outputPath =
             Some (ustr ''Tag,Count'' @ newline @ ustr ''Port,Protocol,Count'' @ newline @
                   ustr ''Untagged,'' @ str_int (int (length (yielded flowItems))) @ newline)"
proof -
  define st1 where "st1 = tag_loop initial_state
      (genRecord_loop TagRecord_cls 0 0 [Emit (Logged INFO (CSV_Header (strip header)))])"
  have st1: "build_table fs tagMappingsPath = Inr st1"
    using assms(1,2) by (simp add: build_table_def genRecord_readable st1_def)
  have e1: "tagMappings st1 = []"
    by (simp add: st1_def initial_state_def)
  have u1: "untaggedCounter st1 = 0"
    by (simp add: st1_def initial_state_def)
  obtain flowItems where fi: "genRecord fs flowlogsPath FlowLogRecordV2_cls strip = Inr flowItems"
    using assms(3) by (simp add: genRecord_readable)
  define st2 where "st2 = flow_loop st1 flowItems"
  have st2: "aggregate fs flowlogsPath st1 = Inr st2"
    by (simp add: aggregate_def fi st2_def)
  have "map fst (tagMappings st2) = []"
    by (simp add: st2_def e1)
  then have e2: "tagMappings st2 = []"
    by simp
  have u2: "untaggedCounter st2 = int (length (yielded flowItems))"
    by (simp add: st2_def flow_loop_untagged e1 u1)
  have m: "raised (main fs flowlogsPath tagMappingsPath outputPath) = None"
    "files (main fs flowlogsPath tagMappingsPath outputPath) outputPath =
       Some (ustr ''Tag,Count'' @ newline @ ustr ''Port,Protocol,Count'' @ newline @
             ustr ''Untagged,'' @ str_int (int (length (yielded flowItems))) @ newline)"
    by (simp_all add: main_def st1 st2 e2 u2 report_writes_def)
  from st1 e1 fi st2 e2 u2 m show ?thesis
    by blast
qed

theorem empty_tag_mapping_witness:
  "header_only_fs (ustr ''tags.csv'') = Some header_only_tags \<and>
   file_lines header_only_tags = [ustr ''dstport,protocol,tag'' @ newline] \<and>
   header_only_fs (ustr ''flows.csv'') = Some example_flows \<and>
   genRecord header_only_fs (ustr ''flows.csv'') FlowLogRecordV2_cls strip = Inr example_flow_items \<and>
   length (yielded example_flow_items) = 3 \<and>
   raised (main header_only_fs (ustr ''flows.csv'') (ustr ''tags.csv'') (ustr ''out.csv'')) = None \<and>
   files (main header_only_fs (ustr ''flows.csv'') (ustr ''tags.csv'') (ustr ''out.csv''))
     (ustr ''out.csv'') =
     Some (ustr ''Tag,Count'' @ newline @ ustr ''Port,Protocol,Count'' @ newline @
           ustr ''Untagged,3'' @ newline)"
proof -
  have t: "header_only_fs (ustr ''tags.csv'') = Some header_only_tags"
    by (simp add: header_only_fs_def)
  have l: "file_lines header_only_tags = [ustr ''dstport,protocol,tag'' @ newline]"
    by (simp add: header_only_tags_def file_lines_def newline_def ustr_def)
  have f: "header_only_fs (ustr ''flows.csv'') = Some example_flows"
    by (simp add: header_only_fs_def)
  have "header_only_fs (ustr ''flows.csv'') = example_fs (ustr ''flows.csv'')"
    by (simp only: f example_fs_flows)
  from genRecord_same_file [of header_only_fs "ustr ''flows.csv''"
    example_fs FlowLogRecordV2_cls strip]
    this
  have g: "genRecord header_only_fs (ustr ''flows.csv'') FlowLogRecordV2_cls strip =
    Inr example_flow_items"
    by (simp only: example_genRecord_flows)
  have n: "length (yielded example_flow_items) = 3"
    by (simp add: example_flow_items_def)
  have three: "ustr ''Untagged,'' @ str_int (int 3) @ newline = ustr ''Untagged,3'' @ newline"
    by (simp add: show_eval)
  from empty_tag_mapping [OF t l f, of "ustr ''out.csv''"] obtain flowItems where
    a: "genRecord header_only_fs (ustr ''flows.csv'') FlowLogRecordV2_cls strip = Inr flowItems" and
    b: "raised (main header_only_fs (ustr ''flows.csv'') (ustr ''tags.csv'') (ustr ''out.csv'')) =
      None" and
    c: "files (main header_only_fs (ustr ''flows.csv'') (ustr ''tags.csv'') (ustr ''out.csv''))
      (ustr ''out.csv'') =
          Some (ustr ''Tag,Count'' @ newline @ ustr ''Port,Protocol,Count'' @ newline @
                ustr ''Untagged,'' @ str_int (int (length (yielded flowItems))) @ newline)"
    by (elim exE conjE)
  from a have fi: "flowItems = example_flow_items"
    by (simp only: g sum.inject)
  from c have c': "files (main header_only_fs (ustr ''flows.csv'') (ustr ''tags.csv'')
    (ustr ''out.csv'')) (ustr ''out.csv'') =
      Some (ustr ''Tag,Count'' @ newline @ ustr ''Port,Protocol,Count'' @ newline @
            ustr ''Untagged,3'' @ newline)"
    by (simp only: fi n three)
  show ?thesis
    apply (intro conjI)
          apply (rule t)
         apply (rule l)
        apply (rule f)
       apply (rule g)
      apply (rule n)
     apply (rule b)
    apply (rule c')
    done
qed

text \<open>
  C8. \<open>argv\<close> is the argument vector with the script name first, so the positional
  arguments are \<open>drop 1 argv\<close>. When there are not exactly three of them, the program
  prints the one line \<open>python3 main.py <PATH_TO_FLOW_LOGS.csv> <PATH_TO_TAG_MAPPINGS.csv>
  <PATH_TO_OUTPUT.csv>\<close> to standard output and nothing else, exits with status 1, opens no
  file and leaves the file system as it was. With exactly three it runs \<open>main\<close> on them, which opens the tag
  mapping file first.
\<close>

theorem cli_invocation:
  "(length (drop 1 argv) \<noteq> 3 \<longrightarrow>
      program argv fs =
        \<lparr>exit_status = 1,
         printed =
           [Print (ustr ''python3 main.py <PATH_TO_FLOW_LOGS.csv> <PATH_TO_TAG_MAPPINGS.csv> <PATH_TO_OUTPUT.csv>'')],
         files_after = fs, files_opened = []\<rparr>) \<and>
   (length (drop 1 argv) = 3 \<longrightarrow>
      (let r = main fs (argv ! 1) (argv ! 2) (argv ! 3)
       in program argv fs =
            \<lparr>exit_status = (case raised r of None \<Rightarrow> 0 | Some e \<Rightarrow> 1), printed = out r,
             files_after = files r, files_opened = opened r\<rparr> \<and>
          hd (opened r) = argv ! 2))"
proof -
  have "hd (opened (main fs a b c)) = b" for a b c
    by (simp add: main_def split: sum.splits)
  then show ?thesis
    by (cases "length argv = 4") (auto simp: program_def usage_def Let_def)
qed

theorem cli_invocation_witness:
  "length (drop 1 [ustr ''main.py'', ustr ''flows.csv'', ustr ''tags.csv'']) \<noteq> 3 \<and>
   program [ustr ''main.py'', ustr ''flows.csv'', ustr ''tags.csv''] example_fs =
     \<lparr>exit_status = 1,
      printed =
        [Print (ustr ''python3 main.py <PATH_TO_FLOW_LOGS.csv> <PATH_TO_TAG_MAPPINGS.csv> <PATH_TO_OUTPUT.csv>'')],
      files_after = example_fs, files_opened = []\<rparr> \<and>
   length (drop 1 [ustr ''main.py'', ustr ''flows.csv'', ustr ''tags.csv'', ustr ''out.csv'']) = 3 \<and>
   program [ustr ''main.py'', ustr ''flows.csv'', ustr ''tags.csv'', ustr ''out.csv''] example_fs =
     \<lparr>exit_status = 0, printed = stdout example_st2,
      files_after = example_fs(ustr ''out.csv'' \<mapsto> example_report),
      files_opened = [ustr ''tags.csv'', ustr ''flows.csv'', ustr ''out.csv'']\<rparr>"
proof -
  have three: "length (drop 1 [ustr ''main.py'', ustr ''flows.csv'', ustr ''tags.csv'',
    ustr ''out.csv'']) = 3"
    by simp
  have two: "length (drop 1 [ustr ''main.py'', ustr ''flows.csv'', ustr ''tags.csv'']) \<noteq> 3"
    by simp
  have a: "program [ustr ''main.py'', ustr ''flows.csv'', ustr ''tags.csv''] example_fs =
     \<lparr>exit_status = 1,
      printed =
        [Print (ustr ''python3 main.py <PATH_TO_FLOW_LOGS.csv> <PATH_TO_TAG_MAPPINGS.csv> <PATH_TO_OUTPUT.csv>'')],
      files_after = example_fs, files_opened = []\<rparr>"
    by (rule cli_invocation [THEN conjunct1, THEN mp, OF two])
  have "let r = main example_fs
                 ([ustr ''main.py'', ustr ''flows.csv'', ustr ''tags.csv'', ustr ''out.csv''] ! 1)
                 ([ustr ''main.py'', ustr ''flows.csv'', ustr ''tags.csv'', ustr ''out.csv''] ! 2)
                 ([ustr ''main.py'', ustr ''flows.csv'', ustr ''tags.csv'', ustr ''out.csv''] ! 3)
       in program [ustr ''main.py'', ustr ''flows.csv'', ustr ''tags.csv'',
         ustr ''out.csv''] example_fs =
            \<lparr>exit_status = (case raised r of None \<Rightarrow> 0 | Some e \<Rightarrow> 1), printed = out r,
             files_after = files r, files_opened = opened r\<rparr> \<and>
          hd (opened r) = [ustr ''main.py'', ustr ''flows.csv'', ustr ''tags.csv'',
            ustr ''out.csv''] ! 2"
    by (rule cli_invocation [THEN conjunct2, THEN mp, OF three])
  then have b: "program [ustr ''main.py'', ustr ''flows.csv'', ustr ''tags.csv'',
    ustr ''out.csv''] example_fs =
     \<lparr>exit_status = 0, printed = stdout example_st2,
      files_after = example_fs(ustr ''out.csv'' \<mapsto> example_report),
      files_opened = [ustr ''tags.csv'', ustr ''flows.csv'', ustr ''out.csv'']\<rparr>"
    by (simp add: example_main)
  show ?thesis
    apply (intro conjI)
       apply (rule two)
      apply (rule a)
     apply (rule three)
    apply (rule b)
    done
qed




text \<open>
  C10. The protocol component of the join key computed for a flow record is one of
  exactly five strings, and each of the five occurs. Consequently, when both inputs can
  be read, every entry of the final tag table whose protocol component is none of the
  five still has counter 0 after the aggregation pass.
\<close>

theorem protocol_component_of_join_key:
  assumes "fs tagMappingsPath = Some tagBody" and "fs flowlogsPath = Some flowBody"
  shows "range protocolStr_of =
           {ustr ''icmp'', ustr ''ipv4'', ustr ''tcp'', ustr ''udp'', ustr ''ipv6''} \<and>
         (\<exists>st1 st2.
            build_table fs tagMappingsPath = Inr st1 \<and>
            aggregate fs flowlogsPath st1 = Inr st2 \<and>
            (\<forall>port proto t c.
               ((port, proto), (t, c)) \<in> set (tagMappings st2) \<longrightarrow>
               proto \<notin> {ustr ''icmp'', ustr ''ipv4'', ustr ''tcp'', ustr ''udp'', ustr ''ipv6''} \<longrightarrow>
               c = 0))"
proof -
  obtain st1 where st1: "build_table fs tagMappingsPath = Inr st1"
    using assms(1) by (simp add: build_table_def genRecord_readable)
  obtain flowItems where fi: "genRecord fs flowlogsPath FlowLogRecordV2_cls strip = Inr flowItems"
    using assms(2) by (simp add: genRecord_readable)
  define st2 where "st2 = flow_loop st1 flowItems"
  have st2: "aggregate fs flowlogsPath st1 = Inr st2"
    by (simp add: aggregate_def fi st2_def)
  have dist: "distinct (map fst (tagMappings st2))"
    by (simp add: st2_def build_table_initial(1) [OF st1])
  have zero: "c = 0"
    if mem: "((port, proto), (t, c)) \<in> set (tagMappings st2)" and out: "proto \<notin> protocol_names"
    for port proto t c
  proof -
    from dist mem have "map_of (tagMappings st2) (port, proto) = Some (t, c)"
      by simp
    then obtain t0 c0 where
      old: "map_of (tagMappings st1) (port, proto) = Some (t0, c0)" and
      c: "c = c0 + int (length (filter (\<lambda>r. flow_key r = (port, proto)) (yielded flowItems)))"
      by (auto simp: st2_def flow_loop_lookup)
    from old have "((port, proto), (t0, c0)) \<in> set (tagMappings st1)"
      by (rule map_of_SomeD)
    with build_table_initial(2) [OF st1] have c0: "c0 = 0" by fastforce
    have "filter (\<lambda>r. flow_key r = (port, proto)) (yielded flowItems) = []"
    proof -
      have "flow_key r \<noteq> (port, proto)" for r
        using out protocolStr_of_range by (auto simp: flow_key_def)
      then show ?thesis by simp
    qed
    with c c0 show ?thesis by simp
  qed
  show ?thesis
    using st1 st2 zero protocolStr_of_range unfolding protocol_names_def by blast
qed

theorem protocol_component_of_join_key_witness:
  "example_fs (ustr ''tags.csv'') = Some example_tags \<and>
   example_fs (ustr ''flows.csv'') = Some example_flows \<and>
   build_table example_fs (ustr ''tags.csv'') = Inr example_st1 \<and>
   aggregate example_fs (ustr ''flows.csv'') example_st1 = Inr example_st2 \<and>
   fst (tagMappings example_st2 ! 2) = (25, ustr ''sctp'') \<and>
   ustr ''sctp'' \<notin> {ustr ''icmp'', ustr ''ipv4'', ustr ''tcp'', ustr ''udp'', ustr ''ipv6''} \<and>
   snd (snd (tagMappings example_st2 ! 2)) = 0"
proof -
  from protocol_component_of_join_key [OF example_fs_tags example_fs_flows]
  have "\<exists>st1 st2.
          build_table example_fs (ustr ''tags.csv'') = Inr st1 \<and>
          aggregate example_fs (ustr ''flows.csv'') st1 = Inr st2 \<and>
          (\<forall>port proto t c.
             ((port, proto), (t, c)) \<in> set (tagMappings st2) \<longrightarrow>
             proto \<notin> {ustr ''icmp'', ustr ''ipv4'', ustr ''tcp'', ustr ''udp'', ustr ''ipv6''} \<longrightarrow>
             c = 0)"
    by (rule conjunct2)
  then obtain st1 st2 where
    a: "build_table example_fs (ustr ''tags.csv'') = Inr st1" and
    b: "aggregate example_fs (ustr ''flows.csv'') st1 = Inr st2" and
    c: "\<forall>port proto t c.
       ((port, proto), (t, c)) \<in> set (tagMappings st2) \<longrightarrow>
       proto \<notin> {ustr ''icmp'', ustr ''ipv4'', ustr ''tcp'', ustr ''udp'', ustr ''ipv6''} \<longrightarrow> c = 0"
    by (elim exE conjE)
  from a have st1: "st1 = example_st1"
    by (simp only: example_build_table sum.inject)
  from b have st2: "st2 = example_st2"
    by (simp only: st1 example_aggregate sum.inject)
  let ?e = "tagMappings example_st2 ! 2"
  have key: "fst ?e = (25, ustr ''sctp'')"
    by (simp add: example_st2_def example_final_table_def)
  have "?e \<in> set (tagMappings example_st2)"
    by (simp add: example_st2_def example_final_table_def)
  then have mem: "((25, ustr ''sctp''), (fst (snd ?e), snd (snd ?e))) \<in> set (tagMappings st2)"
    by (simp only: st2 key [symmetric] prod.collapse)
  have out: "ustr ''sctp'' \<notin> {ustr ''icmp'', ustr ''ipv4'', ustr ''tcp'', ustr ''udp'',
    ustr ''ipv6''}"
    by simp
  from c [rule_format, OF mem out] have zero: "snd (snd ?e) = 0" .
  show ?thesis
    apply (intro conjI)
          apply (rule example_fs_tags)
         apply (rule example_fs_flows)
        apply (rule example_build_table)
       apply (rule example_aggregate)
      apply (rule key)
     apply (rule out)
    apply (rule zero)
    done
qed

end
